theory Spec2Isabelle
  imports Complex_Main "HOL-Library.Multiset" "HOL-Library.Log_Nat"
begin

section \<open>JavaScript numbers\<close>

text \<open>
  Every numeric field of \<^verbatim>\<open>src/ProductAllocationApp.tsx\<close> has the TypeScript type
  \<^verbatim>\<open>number\<close>, an IEEE 754 binary64 value. A number is modelled as a finite value
  \<open>Num r\<close> (with \<open>Num 0\<close> for positive zero), negative zero, one of the two infinities, or
  \<open>NaN\<close>. Every arithmetic operation computes the exact rational result and rounds it
  to the nearest binary64 value, ties to even (\<open>round64\<close>), with overflow to an infinity
  and underflow through the subnormal numbers to a signed zero.
\<close>

datatype jsnum = Num rat | NegZero | PosInf | NegInf | NaN

text \<open>Powers of two with an integer exponent.\<close>

definition pow2 :: "int \<Rightarrow> rat" where
  "pow2 e = 2 powi e"

text \<open>For \<open>a > 0\<close>, the exponent \<open>e\<close> with \<open>2^e \<le> a < 2^(e+1)\<close>.\<close>

definition ilog2 :: "rat \<Rightarrow> int" where
  "ilog2 a =
     (if 1 \<le> a then int (floorlog 2 (nat \<lfloor>a\<rfloor>)) - 1
      else - int (floorlog 2 (nat (\<lceil>1 / a\<rceil> - 1))))"

text \<open>Rounding to the nearest integer, a tie going to the even neighbour.\<close>

definition round_even :: "rat \<Rightarrow> int" where
  "round_even x =
     (let n = \<lfloor>x\<rfloor>; d = x - of_int n
      in if d < 1 / 2 then n else if 1 / 2 < d then n + 1 else if even n then n else n + 1)"

text \<open>
  Binary64 has 53 significant bits and exponents from \<open>-1022\<close> to \<open>1023\<close>. The unit in the
  last place of \<open>r\<close> is \<open>2^(e - 52)\<close> for the exponent \<open>e\<close> of \<open>r\<close>, which is at least \<open>-1022\<close>
  (below that the numbers are subnormal). A result of magnitude \<open>2^1024\<close> or more is an
  infinity; a result that rounds to nothing is a zero with the sign of \<open>r\<close>.
\<close>

definition round64 :: "rat \<Rightarrow> jsnum" where
  "round64 r =
     (if r = 0 then Num 0
      else
        let a = \<bar>r\<bar>;
            e = max (ilog2 a) (- 1022);
            u = pow2 (e - 52);
            n = round_even (a / u);
            v = of_int n * u
        in if pow2 1024 \<le> v then (if 0 < r then PosInf else NegInf)
           else if n = 0 then (if 0 < r then Num 0 else NegZero)
           else Num (if 0 < r then v else - v))"

text \<open>A rational is a binary64 value when rounding leaves it as it is.\<close>

definition is_double :: "rat \<Rightarrow> bool" where
  "is_double r = (round64 r = Num r)"

text \<open>
  Every number the program holds is a binary64 value; \<open>js_double\<close> says so of a number of
  the model, whose finite values range over all rationals.
\<close>

fun js_double :: "jsnum \<Rightarrow> bool" where
  "js_double (Num r) = is_double r"
| "js_double _ = True"

text \<open>The finite numbers, their value, the sign bit, and the signed zeros and infinities.\<close>

fun js_finite :: "jsnum \<Rightarrow> bool" where
  "js_finite (Num a) = True"
| "js_finite NegZero = True"
| "js_finite _ = False"

fun js_value :: "jsnum \<Rightarrow> rat" where
  "js_value (Num a) = a"
| "js_value _ = 0"

fun js_negative :: "jsnum \<Rightarrow> bool" where
  "js_negative (Num a) = (a < 0)"
| "js_negative NegZero = True"
| "js_negative NegInf = True"
| "js_negative _ = False"

definition js_zero :: "bool \<Rightarrow> jsnum" where
  "js_zero negative = (if negative then NegZero else Num 0)"

definition js_inf :: "bool \<Rightarrow> jsnum" where
  "js_inf negative = (if negative then NegInf else PosInf)"

text \<open>
  Addition: an exact sum of zero is \<open>+0\<close> unless both operands are \<open>-0\<close>. Subtraction is
  the addition of the negated operand.
\<close>

definition js_add :: "jsnum \<Rightarrow> jsnum \<Rightarrow> jsnum" where
  "js_add x y =
     (if x = NaN \<or> y = NaN then NaN
      else if \<not> js_finite x then (if \<not> js_finite y \<and> x \<noteq> y then NaN else x)
      else if \<not> js_finite y then y
      else if js_value x + js_value y = 0 then js_zero (x = NegZero \<and> y = NegZero)
      else round64 (js_value x + js_value y))"

fun js_neg :: "jsnum \<Rightarrow> jsnum" where
  "js_neg (Num a) = (if a = 0 then NegZero else Num (- a))"
| "js_neg NegZero = Num 0"
| "js_neg PosInf = NegInf"
| "js_neg NegInf = PosInf"
| "js_neg NaN = NaN"

definition js_sub :: "jsnum \<Rightarrow> jsnum \<Rightarrow> jsnum" where
  "js_sub a b = js_add a (js_neg b)"

text \<open>Multiplication and division: the sign of the result is the exclusive or of the signs.\<close>

definition js_mul :: "jsnum \<Rightarrow> jsnum \<Rightarrow> jsnum" where
  "js_mul x y =
     (if x = NaN \<or> y = NaN then NaN
      else if \<not> js_finite x \<or> \<not> js_finite y then
        (if (js_finite x \<and> js_value x = 0) \<or> (js_finite y \<and> js_value y = 0) then NaN
         else js_inf (js_negative x \<noteq> js_negative y))
      else if js_value x * js_value y = 0 then js_zero (js_negative x \<noteq> js_negative y)
      else round64 (js_value x * js_value y))"

definition js_div :: "jsnum \<Rightarrow> jsnum \<Rightarrow> jsnum" where
  "js_div x y =
     (if x = NaN \<or> y = NaN then NaN
      else if \<not> js_finite x then
        (if \<not> js_finite y then NaN else js_inf (js_negative x \<noteq> js_negative y))
      else if \<not> js_finite y then js_zero (js_negative x \<noteq> js_negative y)
      else if js_value y = 0 then
        (if js_value x = 0 then NaN else js_inf (js_negative x \<noteq> js_negative y))
      else if js_value x = 0 then js_zero (js_negative x \<noteq> js_negative y)
      else round64 (js_value x / js_value y))"

text \<open>\<^verbatim>\<open>Math.floor\<close>: the zeros, the infinities and \<open>NaN\<close> are returned as they are.\<close>

fun Math_floor :: "jsnum \<Rightarrow> jsnum" where
  "Math_floor (Num a) = Num (of_int \<lfloor>a\<rfloor>)"
| "Math_floor x = x"

text \<open>
  The relational operators \<^verbatim>\<open><\<close>, \<^verbatim>\<open>>\<close>, \<^verbatim>\<open><=\<close> and strict equality \<^verbatim>\<open>===\<close> on numbers. They
  do not tell the two zeros apart.
\<close>

fun js_lt :: "jsnum \<Rightarrow> jsnum \<Rightarrow> bool" where
  "js_lt NaN _ = False"
| "js_lt _ NaN = False"
| "js_lt PosInf _ = False"
| "js_lt _ PosInf = True"
| "js_lt _ NegInf = False"
| "js_lt NegInf _ = True"
| "js_lt a b = (js_value a < js_value b)"

definition js_gt :: "jsnum \<Rightarrow> jsnum \<Rightarrow> bool" where
  "js_gt a b = js_lt b a"

definition js_seq :: "jsnum \<Rightarrow> jsnum \<Rightarrow> bool" where
  "js_seq a b =
     (a \<noteq> NaN \<and> b \<noteq> NaN
      \<and> (a = b \<or> (js_finite a \<and> js_finite b \<and> js_value a = js_value b)))"

definition js_leq :: "jsnum \<Rightarrow> jsnum \<Rightarrow> bool" where
  "js_leq a b = (js_lt a b \<or> js_seq a b)"

text \<open>
  \<^verbatim>\<open>Math.min(...)\<close> and \<^verbatim>\<open>Math.max(...)\<close> take any number of arguments, start from
  \<open>+\<infinity>\<close> (respectively \<open>-\<infinity>\<close>) and return \<open>NaN\<close> as soon as one argument is \<open>NaN\<close>.
  They compare like \<^verbatim>\<open><\<close>, except that \<open>-0\<close> counts as smaller than \<open>+0\<close>: that order is
  \<open>js_below\<close>, and \<open>js_le\<close> is the same order with equality.
\<close>

definition js_below :: "jsnum \<Rightarrow> jsnum \<Rightarrow> bool" where
  "js_below a b = (js_lt a b \<or> (a = NegZero \<and> b = Num 0))"

definition js_le :: "jsnum \<Rightarrow> jsnum \<Rightarrow> bool" where
  "js_le a b = (js_below a b \<or> (a \<noteq> NaN \<and> a = b))"

definition js_min2 :: "jsnum \<Rightarrow> jsnum \<Rightarrow> jsnum" where
  "js_min2 a b = (if a = NaN \<or> b = NaN then NaN else if js_below b a then b else a)"

definition js_max2 :: "jsnum \<Rightarrow> jsnum \<Rightarrow> jsnum" where
  "js_max2 a b = (if a = NaN \<or> b = NaN then NaN else if js_below a b then b else a)"

definition Math_min :: "jsnum list \<Rightarrow> jsnum" where
  "Math_min xs = foldl js_min2 PosInf xs"

definition Math_max :: "jsnum list \<Rightarrow> jsnum" where
  "Math_max xs = foldl js_max2 NegInf xs"

text \<open>Truthiness of a number, as used by \<^verbatim>\<open>x || 0\<close>: both zeros and \<open>NaN\<close> are falsy.\<close>

definition js_truthy :: "jsnum \<Rightarrow> bool" where
  "js_truthy x = (x \<noteq> Num 0 \<and> x \<noteq> NegZero \<and> x \<noteq> NaN)"

text \<open>The unit in the last place and the rounded mantissa of a non-zero number.\<close>

definition ulp64 :: "rat \<Rightarrow> rat" where
  "ulp64 r = pow2 (max (ilog2 \<bar>r\<bar>) (- 1022) - 52)"

definition mant64 :: "rat \<Rightarrow> int" where
  "mant64 r = round_even (\<bar>r\<bar> / ulp64 r)"

section \<open>Strings built by the component\<close>

text \<open>\<^verbatim>\<open>String(n)\<close> for a non-negative integer, and \<^verbatim>\<open>padStart\<close> with a one-character filler.\<close>

fun String_nat :: "nat \<Rightarrow> string" where
  "String_nat n =
     (if n < 10 then [''0123456789'' ! n]
      else String_nat (n div 10) @ [''0123456789'' ! (n mod 10)])"

declare String_nat.simps [simp del]

definition padStart :: "nat \<Rightarrow> char \<Rightarrow> string \<Rightarrow> string" where
  "padStart n c s = replicate (n - length s) c @ s"

section \<open>Data model\<close>

record Customer =
  c_id :: string
  c_name :: string
  creditRemaining :: jsnum
  closingBalance :: jsnum

record Product =
  p_id :: string
  p_name :: string
  p_pricePerUnit :: jsnum

record Order =
  o_id :: string
  customerId :: string
  productId :: string
  requestedQty :: jsnum
  allocatedQty :: jsnum
  suggestion :: jsnum
  pricePerUnit :: jsnum
  total :: jsnum

record AllocationState =
  totalStock :: jsnum
  remainingStock :: jsnum
  orders :: "Order list"
  customers :: "Customer list"
  products :: "Product list"

text \<open>
  The component holds three pieces of React state: the allocation state, the list of
  warnings and the version counter. Each handler is modelled as a function from the
  component's state before the event to its state after it; the updater callbacks
  \<^verbatim>\<open>setState(prev => ...)\<close> are applied to the state the handler read.
\<close>

record App =
  state :: AllocationState
  errors :: "string list"
  versionKey :: nat

definition initialApp :: App where
  "initialApp =
     \<lparr> state =
         \<lparr> totalStock = Num 10, remainingStock = Num 10,
           orders =
             [\<lparr> o_id = ''ORDER-001'', customerId = ''company1'', productId = ''product'',
                requestedQty = Num 10, allocatedQty = Num 0, suggestion = Num 10,
                pricePerUnit = Num (2063 / 4), total = Num 0 \<rparr>],
           customers =
             [\<lparr> c_id = ''company1'', c_name = ''Company 1'',
                creditRemaining = Num 3000, closingBalance = Num 3000 \<rparr>],
           products =
             [\<lparr> p_id = ''product'', p_name = ''1 day delivery Product'',
                p_pricePerUnit = Num (2063 / 4) \<rparr>] \<rparr>,
       errors = [], versionKey = 1 \<rparr>"

section \<open>Array helpers\<close>

text \<open>\<^verbatim>\<open>Array.prototype.findIndex\<close>: \<open>None\<close> stands for the result \<open>-1\<close>.\<close>

fun findIndex :: "('a \<Rightarrow> bool) \<Rightarrow> 'a list \<Rightarrow> nat option" where
  "findIndex P [] = None"
| "findIndex P (x # xs) =
     (if P x then Some 0 else map_option Suc (findIndex P xs))"

definition findCustomer :: "Customer list \<Rightarrow> string \<Rightarrow> Customer option" where
  "findCustomer cs cid = find (\<lambda>c. c_id c = cid) cs"

section \<open>Reset, save and order creation\<close>

definition resetAllocations :: "App \<Rightarrow> App" where
  "resetAllocations app =
     (let resetOrders = map (\<lambda>order. order\<lparr>allocatedQty := Num 0, total := Num 0\<rparr>)
                            (orders (state app))
      in app\<lparr> state := (state app)\<lparr> orders := resetOrders,
                                     remainingStock := totalStock (state app) \<rparr>,
               errors := [],
               versionKey := versionKey app + 1 \<rparr>)"

text \<open>\<^verbatim>\<open>saveAllocations\<close> only shows an alert; the second component is the alert's text.\<close>

definition saveAllocations :: "App \<Rightarrow> App \<times> string" where
  "saveAllocations app =
     (app, ''Allocations saved successfully! Version: '' @ String_nat (versionKey app))"

definition addNewOrder :: "App \<Rightarrow> App" where
  "addNewOrder app =
     (let newOrder =
            \<lparr> o_id = ''ORDER-'' @ padStart 3 (CHR ''0'')
                                   (String_nat (length (orders (state app)) + 1)),
              customerId = ''company1'', productId = ''product'',
              requestedQty = Num 1, allocatedQty = Num 0, suggestion = Num 1,
              pricePerUnit = Num (2063 / 4), total = Num 0 \<rparr>
      in app\<lparr> state := (state app)\<lparr> orders := orders (state app) @ [newOrder] \<rparr> \<rparr>)"

section \<open>Manual allocation update\<close>

text \<open>
  The sum of line 136, \<^verbatim>\<open>reduce((sum, o) => o.id !== orderId ? sum + o.allocatedQty : sum, 0)\<close>,
  and the sum of line 153 over all orders.
\<close>

definition allocatedExcept :: "string \<Rightarrow> Order list \<Rightarrow> jsnum" where
  "allocatedExcept orderId os =
     foldl (\<lambda>acc ord. if o_id ord \<noteq> orderId then js_add acc (allocatedQty ord) else acc)
           (Num 0) os"

definition allocatedSum :: "Order list \<Rightarrow> jsnum" where
  "allocatedSum os = foldl (\<lambda>acc ord. js_add acc (allocatedQty ord)) (Num 0) os"

definition updateAllocation :: "App \<Rightarrow> string \<Rightarrow> jsnum \<Rightarrow> App" where
  "updateAllocation app orderId newQty =
     (let newOrders = orders (state app) in
      case findIndex (\<lambda>ord. o_id ord = orderId) newOrders of
        None \<Rightarrow> app
      | Some orderIndex \<Rightarrow>
          let order = newOrders ! orderIndex in
          (case findCustomer (customers (state app)) (customerId order) of
             None \<Rightarrow> app
           | Some customer \<Rightarrow>
               let maxAffordableQty =
                     Math_floor (js_div (creditRemaining customer) (pricePerUnit order));
                   currentAllocatedTotal = allocatedExcept orderId newOrders;
                   maxAvailableQty = js_sub (totalStock (state app)) currentAllocatedTotal;
                   constrainedQty =
                     Math_min [Math_max [Num 0, newQty], requestedQty order,
                               maxAffordableQty, maxAvailableQty];
                   newOrders' = newOrders[orderIndex :=
                     order\<lparr> allocatedQty := constrainedQty,
                            total := js_mul constrainedQty (pricePerUnit order) \<rparr>];
                   newRemainingStock =
                     js_sub (totalStock (state app)) (allocatedSum newOrders');
                   newErrors =
                     (if js_lt constrainedQty newQty then
                        (if js_seq constrainedQty maxAffordableQty then
                           [''Order '' @ orderId @ '': Limited by customer credit'']
                         else if js_seq constrainedQty maxAvailableQty then
                           [''Order '' @ orderId @ '': Limited by available stock'']
                         else [])
                      else [])
               in app\<lparr> state := (state app)\<lparr> orders := newOrders',
                                              remainingStock := newRemainingStock \<rparr>,
                        errors := newErrors,
                        versionKey := versionKey app + 1 \<rparr>))"

section \<open>Auto-assignment\<close>

text \<open>
  The comparator of line 79: \<^verbatim>\<open>(customerB?.creditRemaining || 0) - (customerA?.creditRemaining || 0)\<close>.
  A missing customer, a credit of zero and a credit of \<open>NaN\<close> all count as \<open>0\<close>.
\<close>

definition creditOrZero :: "Customer list \<Rightarrow> Order \<Rightarrow> jsnum" where
  "creditOrZero cs ord =
     (case findCustomer cs (customerId ord) of
        None \<Rightarrow> Num 0
      | Some c \<Rightarrow> if js_truthy (creditRemaining c) then creditRemaining c else Num 0)"

definition compareOrders :: "Customer list \<Rightarrow> Order \<Rightarrow> Order \<Rightarrow> jsnum" where
  "compareOrders cs a b = js_sub (creditOrZero cs b) (creditOrZero cs a)"

text \<open>
  \<^verbatim>\<open>Array.prototype.sort(comparefn)\<close> is stable (ECMAScript 2019), reads a comparator
  result of \<open>NaN\<close> as \<open>0\<close>, and puts \<open>a\<close> after \<open>b\<close> exactly when \<open>comparefn(a, b) > 0\<close>.
  The engine's algorithm is not part of the source; the model is insertion sort, which
  returns the one list a stable sort can return for a consistent comparator.
\<close>

fun sortInsert :: "('a \<Rightarrow> 'a \<Rightarrow> jsnum) \<Rightarrow> 'a \<Rightarrow> 'a list \<Rightarrow> 'a list" where
  "sortInsert cmp x [] = [x]"
| "sortInsert cmp x (y # ys) =
     (if js_gt (cmp x y) (Num 0) then y # sortInsert cmp x ys else x # y # ys)"

fun Array_sort :: "('a \<Rightarrow> 'a \<Rightarrow> jsnum) \<Rightarrow> 'a list \<Rightarrow> 'a list" where
  "Array_sort cmp [] = []"
| "Array_sort cmp (x # xs) = sortInsert cmp x (Array_sort cmp xs)"

text \<open>
  The body of the \<^verbatim>\<open>forEach\<close> of line 88 on one order: the order as it is left, the
  running \<^verbatim>\<open>remainingStock\<close> and the warnings collected so far.
\<close>

definition allocateOrder ::
  "Customer list \<Rightarrow> Order \<Rightarrow> jsnum \<Rightarrow> string list \<Rightarrow> Order \<times> jsnum \<times> string list" where
  "allocateOrder cs order remaining newErrors =
     (case findCustomer cs (customerId order) of
        None \<Rightarrow> (order, remaining, newErrors)
      | Some customer \<Rightarrow>
          let maxAffordableQty =
                Math_floor (js_div (creditRemaining customer) (pricePerUnit order));
              maxAllowableQty = Math_min [requestedQty order, remaining, maxAffordableQty];
              qty = Math_max [Num 0, maxAllowableQty];
              order' = order\<lparr> allocatedQty := qty, total := js_mul qty (pricePerUnit order) \<rparr>;
              remaining' = js_sub remaining qty;
              errors1 =
                (if js_gt qty (js_div (creditRemaining customer) (pricePerUnit order))
                 then newErrors @ [''Order '' @ o_id order @ '': Exceeds customer credit limit'']
                 else newErrors);
              errors2 =
                (if js_gt qty (requestedQty order)
                 then errors1 @ [''Order '' @ o_id order @ '': Allocation exceeds requested quantity'']
                 else errors1)
          in (order', remaining', errors2))"

fun allocatePass ::
  "Customer list \<Rightarrow> Order list \<Rightarrow> jsnum \<Rightarrow> string list \<Rightarrow> Order list \<times> jsnum \<times> string list" where
  "allocatePass cs [] remaining newErrors = ([], remaining, newErrors)"
| "allocatePass cs (order # rest) remaining newErrors =
     (case allocateOrder cs order remaining newErrors of
        (order', remaining', newErrors') \<Rightarrow>
          (case allocatePass cs rest remaining' newErrors' of
             (rest', remaining'', newErrors'') \<Rightarrow> (order' # rest', remaining'', newErrors'')))"

definition runAutoAssignment :: "App \<Rightarrow> App" where
  "runAutoAssignment app =
     (let newOrders = Array_sort (compareOrders (customers (state app))) (orders (state app))
      in case allocatePass (customers (state app)) newOrders (totalStock (state app)) [] of
           (newOrders', remaining, newErrors) \<Rightarrow>
             app\<lparr> state := (state app)\<lparr> orders := newOrders', remainingStock := remaining \<rparr>,
                  errors := newErrors,
                  versionKey := versionKey app + 1 \<rparr>)"

section \<open>The quantities of the specification\<close>

text \<open>
  The specification (sections 4.1 and 4.2) names the bounds of an allocation. \<open>spec_clamp\<close>
  is the clamp as a minimum of a maximum; \<open>spec_clamp_cases\<close> is the clamp by cases. The
  two agree whenever the lower bound is at most the upper bound.
\<close>

definition spec_clamp :: "jsnum \<Rightarrow> jsnum \<Rightarrow> jsnum \<Rightarrow> jsnum" where
  "spec_clamp x lower upper = js_min2 (js_max2 lower x) upper"

definition spec_clamp_cases :: "jsnum \<Rightarrow> jsnum \<Rightarrow> jsnum \<Rightarrow> jsnum" where
  "spec_clamp_cases x lower upper =
     (if js_below x lower then lower else if js_below upper x then upper else x)"

definition spec_maxAffordableQty :: "Customer \<Rightarrow> Order \<Rightarrow> jsnum" where
  "spec_maxAffordableQty customer order =
     Math_floor (js_div (creditRemaining customer) (pricePerUnit order))"

definition spec_maxAvailableQty :: "AllocationState \<Rightarrow> string \<Rightarrow> jsnum" where
  "spec_maxAvailableQty s orderId =
     js_sub (totalStock s) (allocatedSum (filter (\<lambda>ord. o_id ord \<noteq> orderId) (orders s)))"

text \<open>
  The automatic pass as section 4.1 describes it, for a given bound \<open>affordable\<close>: an order
  whose customer is found gets \<open>max(0, min(requestedQty, remainingStock, affordable))\<close>;
  an order whose customer is not found is passed over. The bound is either the quotient
  \<open>spec_maxAffordableQty\<close> or \<open>spec_autoAffordableQty\<close>, which a price equal to zero (of
  either sign) makes infinite.
\<close>

definition spec_autoAffordableQty :: "Customer \<Rightarrow> Order \<Rightarrow> jsnum" where
  "spec_autoAffordableQty customer order =
     (if js_seq (pricePerUnit order) (Num 0) then PosInf
      else Math_floor (js_div (creditRemaining customer) (pricePerUnit order)))"

definition spec_autoQty ::
  "(Customer \<Rightarrow> Order \<Rightarrow> jsnum) \<Rightarrow> Customer \<Rightarrow> Order \<Rightarrow> jsnum \<Rightarrow> jsnum" where
  "spec_autoQty affordable customer order remaining =
     Math_max [Num 0, Math_min [requestedQty order, remaining, affordable customer order]]"

fun spec_walk ::
  "(Customer \<Rightarrow> Order \<Rightarrow> jsnum) \<Rightarrow> Customer list \<Rightarrow> Order list \<Rightarrow> jsnum
   \<Rightarrow> Order list \<times> jsnum" where
  "spec_walk affordable cs [] remaining = ([], remaining)"
| "spec_walk affordable cs (order # rest) remaining =
     (case findCustomer cs (customerId order) of
        None \<Rightarrow>
          (case spec_walk affordable cs rest remaining of (rest', r) \<Rightarrow> (order # rest', r))
      | Some customer \<Rightarrow>
          (case spec_walk affordable cs rest
                  (js_sub remaining (spec_autoQty affordable customer order remaining)) of
             (rest', r) \<Rightarrow>
               (order\<lparr> allocatedQty := spec_autoQty affordable customer order remaining,
                       total := js_mul (spec_autoQty affordable customer order remaining)
                                       (pricePerUnit order) \<rparr> # rest', r)))"

text \<open>
  The priority order of section 4.1 as a property of a list \<open>ps\<close>: it is a permutation of the
  orders \<open>os\<close>, descending in the credit the comparator reads, and the orders of equal
  credit are in it in the sequence they have in \<open>os\<close>.
\<close>

definition spec_priorityOrder :: "Customer list \<Rightarrow> Order list \<Rightarrow> Order list \<Rightarrow> bool" where
  "spec_priorityOrder cs os ps =
     (mset ps = mset os
      \<and> sorted_wrt (\<lambda>a b. js_leq (creditOrZero cs b) (creditOrZero cs a)) ps
      \<and> list_all (\<lambda>x. filter (\<lambda>y. creditOrZero cs y = creditOrZero cs x) ps
                      = filter (\<lambda>y. creditOrZero cs y = creditOrZero cs x) os) os)"

text \<open>The four operations of the claim about invariants, and a sequence of calls.\<close>

datatype operation = AutoAssign | Update string jsnum | Reset | AddOrder

fun perform :: "App \<Rightarrow> operation \<Rightarrow> App" where
  "perform app AutoAssign = runAutoAssignment app"
| "perform app (Update orderId newQty) = updateAllocation app orderId newQty"
| "perform app Reset = resetAllocations app"
| "perform app AddOrder = addNewOrder app"

text \<open>The states after each call of a sequence, the first call first.\<close>

fun statesAfter :: "App \<Rightarrow> operation list \<Rightarrow> App list" where
  "statesAfter app [] = []"
| "statesAfter app (oper # opers) = perform app oper # statesAfter (perform app oper) opers"

text \<open>An order without its two allocation fields: what identifies it in a list.\<close>

definition stripAllocation :: "Order \<Rightarrow> Order" where
  "stripAllocation ord = ord\<lparr>allocatedQty := Num 0, total := Num 0\<rparr>"

section \<open>Example states\<close>

text \<open>
  \<open>twoOrdersApp\<close> is scenario 3 of the specification: a stock of 10 of which the first
  order holds 8. In \<open>orphanApp\<close> the only order refers to a customer that does not exist.
\<close>

definition twoOrdersApp :: App where
  "twoOrdersApp =
     \<lparr> state =
         \<lparr> totalStock = Num 10, remainingStock = Num 2,
           orders =
             [\<lparr> o_id = ''ORDER-001'', customerId = ''company1'', productId = ''product'',
                requestedQty = Num 8, allocatedQty = Num 8, suggestion = Num 8,
                pricePerUnit = Num 1, total = Num 8 \<rparr>,
              \<lparr> o_id = ''ORDER-002'', customerId = ''company1'', productId = ''product'',
                requestedQty = Num 5, allocatedQty = Num 0, suggestion = Num 5,
                pricePerUnit = Num 1, total = Num 0 \<rparr>],
           customers =
             [\<lparr> c_id = ''company1'', c_name = ''Company 1'',
                creditRemaining = Num 3000, closingBalance = Num 3000 \<rparr>],
           products = [] \<rparr>,
       errors = [], versionKey = 1 \<rparr>"

definition orphanApp :: App where
  "orphanApp =
     \<lparr> state =
         \<lparr> totalStock = Num 10, remainingStock = Num 7,
           orders =
             [\<lparr> o_id = ''ORDER-001'', customerId = ''company9'', productId = ''product'',
                requestedQty = Num 5, allocatedQty = Num 3, suggestion = Num 5,
                pricePerUnit = Num 1, total = Num 3 \<rparr>],
           customers =
             [\<lparr> c_id = ''company1'', c_name = ''Company 1'',
                creditRemaining = Num 3000, closingBalance = Num 3000 \<rparr>],
           products = [] \<rparr>,
       errors = [''stale''], versionKey = 4 \<rparr>"

text \<open>
  \<open>tieApp\<close> has four orders whose customers have credits 100, 500, 100 and 500.
\<close>

definition tieApp :: App where
  "tieApp =
     \<lparr> state =
         \<lparr> totalStock = Num 10, remainingStock = Num 10,
           orders =
             [\<lparr> o_id = ''A'', customerId = ''s'', productId = ''p'',
                requestedQty = Num 4, allocatedQty = Num 0, suggestion = Num 4,
                pricePerUnit = Num 10, total = Num 0 \<rparr>,
              \<lparr> o_id = ''B'', customerId = ''b'', productId = ''p'',
                requestedQty = Num 4, allocatedQty = Num 0, suggestion = Num 4,
                pricePerUnit = Num 10, total = Num 0 \<rparr>,
              \<lparr> o_id = ''C'', customerId = ''t'', productId = ''p'',
                requestedQty = Num 4, allocatedQty = Num 0, suggestion = Num 4,
                pricePerUnit = Num 10, total = Num 0 \<rparr>,
              \<lparr> o_id = ''D'', customerId = ''b'', productId = ''p'',
                requestedQty = Num 4, allocatedQty = Num 0, suggestion = Num 4,
                pricePerUnit = Num 10, total = Num 0 \<rparr>],
           customers =
             [\<lparr> c_id = ''s'', c_name = ''Small'',
                creditRemaining = Num 100, closingBalance = Num 100 \<rparr>,
              \<lparr> c_id = ''b'', c_name = ''Big'',
                creditRemaining = Num 500, closingBalance = Num 500 \<rparr>,
              \<lparr> c_id = ''t'', c_name = ''Tiny'',
                creditRemaining = Num 100, closingBalance = Num 100 \<rparr>],
           products = [] \<rparr>,
       errors = [], versionKey = 1 \<rparr>"

text \<open>
  \<open>freeApp\<close> has one order with a price of zero and a customer with credit;
  in \<open>zeroPriceApp\<close> the credit is zero as well. In \<open>duplicateApp\<close> two orders share an id.
\<close>

definition freeApp :: App where
  "freeApp =
     \<lparr> state =
         \<lparr> totalStock = Num 10, remainingStock = Num 10,
           orders =
             [\<lparr> o_id = ''ORDER-001'', customerId = ''company1'', productId = ''product'',
                requestedQty = Num 5, allocatedQty = Num 0, suggestion = Num 5,
                pricePerUnit = Num 0, total = Num 0 \<rparr>],
           customers =
             [\<lparr> c_id = ''company1'', c_name = ''Company 1'',
                creditRemaining = Num 3000, closingBalance = Num 3000 \<rparr>],
           products = [] \<rparr>,
       errors = [], versionKey = 1 \<rparr>"

definition duplicateApp :: App where
  "duplicateApp =
     \<lparr> state =
         \<lparr> totalStock = Num 10, remainingStock = Num 0,
           orders =
             [\<lparr> o_id = ''ORDER-001'', customerId = ''company1'', productId = ''product'',
                requestedQty = Num 10, allocatedQty = Num 5, suggestion = Num 10,
                pricePerUnit = Num 1, total = Num 5 \<rparr>,
              \<lparr> o_id = ''ORDER-001'', customerId = ''company1'', productId = ''product'',
                requestedQty = Num 10, allocatedQty = Num 5, suggestion = Num 10,
                pricePerUnit = Num 1, total = Num 5 \<rparr>],
           customers =
             [\<lparr> c_id = ''company1'', c_name = ''Company 1'',
                creditRemaining = Num 3000, closingBalance = Num 3000 \<rparr>],
           products = [] \<rparr>,
       errors = [], versionKey = 1 \<rparr>"

definition zeroPriceApp :: App where
  "zeroPriceApp =
     \<lparr> state =
         \<lparr> totalStock = Num 10, remainingStock = Num 10,
           orders =
             [\<lparr> o_id = ''ORDER-001'', customerId = ''company1'', productId = ''product'',
                requestedQty = Num 5, allocatedQty = Num 0, suggestion = Num 5,
                pricePerUnit = Num 0, total = Num 0 \<rparr>],
           customers =
             [\<lparr> c_id = ''company1'', c_name = ''Company 1'',
                creditRemaining = Num 0, closingBalance = Num 0 \<rparr>],
           products = [] \<rparr>,
       errors = [], versionKey = 1 \<rparr>"

text \<open>\<open>negZeroPriceApp\<close> is \<open>freeApp\<close> with a price of negative zero.\<close>

definition negZeroPriceApp :: App where
  "negZeroPriceApp =
     \<lparr> state =
         \<lparr> totalStock = Num 10, remainingStock = Num 10,
           orders =
             [\<lparr> o_id = ''ORDER-001'', customerId = ''company1'', productId = ''product'',
                requestedQty = Num 5, allocatedQty = Num 0, suggestion = Num 5,
                pricePerUnit = NegZero, total = Num 0 \<rparr>],
           customers =
             [\<lparr> c_id = ''company1'', c_name = ''Company 1'',
                creditRemaining = Num 3000, closingBalance = Num 3000 \<rparr>],
           products = [] \<rparr>,
       errors = [], versionKey = 1 \<rparr>"

section \<open>Basic facts\<close>

subsection \<open>Rounding\<close>

lemma pow2_add: "pow2 (m + n) = pow2 m * pow2 n"
  by (simp add: pow2_def power_int_add)

lemma pow2_pos [simp]: "0 < pow2 n"
  by (simp add: pow2_def)

lemma pow2_nonneg [simp]: "0 \<le> pow2 n"
  by (simp add: pow2_def)

lemma pow2_0 [simp]: "pow2 0 = 1"
  by (simp add: pow2_def)

lemma pow2_mono: "m \<le> n \<Longrightarrow> pow2 m \<le> pow2 n"
  unfolding pow2_def by (rule power_int_increasing) auto

lemma pow2_strict_mono: "m < n \<Longrightarrow> pow2 m < pow2 n"
  unfolding pow2_def by (rule power_int_strict_increasing) auto

lemma pow2_less_D: "pow2 m < pow2 n \<Longrightarrow> m < n"
  using pow2_mono [of n m] by (cases "n \<le> m") auto

lemma pow2_nat: "0 \<le> s \<Longrightarrow> pow2 s = of_int (2 ^ nat s)"
  by (simp add: pow2_def power_int_def)

lemma pow2_neg_nat: "pow2 (- int k) = 1 / 2 ^ k"
  by (simp add: pow2_def power_int_minus field_simps)

lemma pow2_split: "0 \<le> k \<Longrightarrow> pow2 (k + j) = of_int (2 ^ nat k) * pow2 j"
  by (simp add: pow2_add pow2_nat)

lemma ilog2_ge1:
  assumes "1 \<le> a"
  shows "pow2 (ilog2 a) \<le> a \<and> a < pow2 (ilog2 a + 1)"
proof -
  define n where "n = nat \<lfloor>a\<rfloor>"
  have n: "0 < n" "of_nat n \<le> a" "a < of_nat n + 1"
    using assms by (auto simp: n_def) linarith+
  define k where "k = floorlog 2 n"
  from floorlog_bounds [of n 2] n(1) have b: "2 ^ (k - 1) \<le> n" "n < 2 ^ k"
    by (simp_all add: k_def)
  have k: "0 < k" using b(2) n(1) by (cases k) auto
  have e: "ilog2 a = int k - 1"
    using assms by (simp add: ilog2_def n_def k_def)
  have "(2::rat) ^ (k - 1) \<le> of_nat n"
    using b(1) by (metis of_nat_le_iff of_nat_numeral of_nat_power)
  from order_trans [OF this n(2)] have lo: "pow2 (int k - 1) \<le> a"
    using k by (simp add: pow2_def power_int_def nat_diff_distrib')
  have "n + 1 \<le> 2 ^ k" using b(2) by simp
  then have "(of_nat (n + 1) :: rat) \<le> 2 ^ k"
    by (metis of_nat_le_iff of_nat_numeral of_nat_power)
  then have hi: "a < pow2 (int k)"
    using n(3) by (simp add: pow2_def)
  from lo hi e show ?thesis by simp
qed

lemma ilog2_lt1:
  assumes "0 < a" "a < 1"
  shows "pow2 (ilog2 a) \<le> a \<and> a < pow2 (ilog2 a + 1)"
proof -
  define b where "b = 1 / a"
  have b1: "1 < b" using assms by (simp add: b_def)
  define n where "n = nat (\<lceil>b\<rceil> - 1)"
  have c: "2 \<le> \<lceil>b\<rceil>" using b1 by (simp add: le_ceiling_iff)
  have n: "0 < n" "of_nat n < b" "b \<le> of_nat n + 1"
    using c by (auto simp: n_def) linarith+
  define k where "k = floorlog 2 n"
  from floorlog_bounds [of n 2] n(1) have fb: "2 ^ (k - 1) \<le> n" "n < 2 ^ k"
    by (simp_all add: k_def)
  have k: "0 < k" using fb(2) n(1) by (cases k) auto
  have e: "ilog2 a = - int k"
    using assms by (simp add: ilog2_def n_def k_def b_def)
  have "n + 1 \<le> 2 ^ k" using fb(2) by simp
  then have "(of_nat (n + 1) :: rat) \<le> 2 ^ k"
    by (metis of_nat_le_iff of_nat_numeral of_nat_power)
  then have "b \<le> 2 ^ k" using n(3) by simp
  then have "1 / 2 ^ k \<le> a"
    using assms(1) by (simp add: b_def field_simps)
  then have lo: "pow2 (- int k) \<le> a"
    by (simp add: pow2_neg_nat)
  have "(2::rat) ^ (k - 1) \<le> of_nat n"
    using fb(1) by (metis of_nat_le_iff of_nat_numeral of_nat_power)
  from order_le_less_trans [OF this n(2)] have "(2::rat) ^ (k - 1) < b" .
  then have "a < 1 / 2 ^ (k - 1)"
    using assms(1) by (simp add: b_def field_simps)
  moreover have "pow2 (- int k + 1) = 1 / 2 ^ (k - 1)"
    using k pow2_neg_nat [of "k - 1"] by (simp add: of_nat_diff)
  ultimately have hi: "a < pow2 (- int k + 1)" by simp
  from lo hi e show ?thesis by simp
qed

lemma ilog2_bounds:
  "0 < a \<Longrightarrow> pow2 (ilog2 a) \<le> a \<and> a < pow2 (ilog2 a + 1)"
  using ilog2_ge1 [of a] ilog2_lt1 [of a] by (cases "1 \<le> a") auto

lemma ilog2_unique:
  assumes "0 < a" "pow2 e \<le> a" "a < pow2 (e + 1)"
  shows "ilog2 a = e"
proof -
  from ilog2_bounds [OF assms(1)] have b: "pow2 (ilog2 a) \<le> a" "a < pow2 (ilog2 a + 1)"
    by simp_all
  have "pow2 e < pow2 (ilog2 a + 1)" using assms(2) b(2) by simp
  then have 1: "e < ilog2 a + 1" by (rule pow2_less_D)
  have "pow2 (ilog2 a) < pow2 (e + 1)" using assms(3) b(1) by simp
  then have 2: "ilog2 a < e + 1" by (rule pow2_less_D)
  from 1 2 show ?thesis by simp
qed

lemma round_even_near: "\<bar>x - of_int n\<bar> < 1 / 2 \<Longrightarrow> round_even x = n"
proof -
  assume a: "\<bar>x - of_int n\<bar> < 1 / 2"
  show ?thesis
  proof (cases "of_int n \<le> x")
    case True
    then have f: "\<lfloor>x\<rfloor> = n" using a by (intro floor_unique) auto
    then show ?thesis using a True by (simp add: round_even_def Let_def)
  next
    case False
    then have f: "\<lfloor>x\<rfloor> = n - 1" using a by (intro floor_unique) auto
    then show ?thesis using a False by (auto simp: round_even_def Let_def)
  qed
qed

lemma round_even_of_int [simp]: "round_even (of_int n) = n"
  by (rule round_even_near) simp

lemma round_even_ge1: "1 \<le> x \<Longrightarrow> 1 \<le> round_even x"
proof -
  assume "1 \<le> x"
  then have "1 \<le> \<lfloor>x\<rfloor>" by simp
  then show ?thesis by (auto simp: round_even_def Let_def)
qed

lemma round_even_nonneg: "0 \<le> x \<Longrightarrow> 0 \<le> round_even x"
proof -
  assume "0 \<le> x"
  then have "0 \<le> \<lfloor>x\<rfloor>" by simp
  then show ?thesis by (auto simp: round_even_def Let_def)
qed

lemma ulp64_pos [simp]: "0 < ulp64 r"
  by (simp add: ulp64_def)

lemma ulp64_nonneg [simp]: "0 \<le> ulp64 r"
  by (simp add: ulp64_def)

lemma ulp64_ne0 [simp]: "ulp64 r \<noteq> 0"
  by (metis less_irrefl ulp64_pos)

lemma mant64_nonneg: "0 \<le> mant64 r"
  unfolding mant64_def by (rule round_even_nonneg) simp

lemma round64_unfold:
  "r \<noteq> 0 \<Longrightarrow> round64 r =
     (if pow2 1024 \<le> of_int (mant64 r) * ulp64 r then (if 0 < r then PosInf else NegInf)
      else if mant64 r = 0 then (if 0 < r then Num 0 else NegZero)
      else Num (if 0 < r then of_int (mant64 r) * ulp64 r else - (of_int (mant64 r) * ulp64 r)))"
  by (simp add: round64_def Let_def mant64_def ulp64_def)

lemma round64_0 [simp]: "round64 0 = Num 0"
  by (simp add: round64_def)

lemma round64_pos_cases:
  assumes "0 < r"
  shows "round64 r = PosInf \<or> round64 r = Num 0 \<or> (\<exists>v. 0 < v \<and> round64 r = Num v)"
proof (cases "mant64 r = 0")
  case True
  then show ?thesis using assms by (simp add: round64_unfold)
next
  case False
  with mant64_nonneg [of r] have "0 < of_int (mant64 r) * ulp64 r" by simp
  then show ?thesis using assms False by (auto simp: round64_unfold)
qed

lemma round64_neg_cases:
  assumes "r < 0"
  shows "round64 r = NegInf \<or> round64 r = NegZero \<or> (\<exists>v. v < 0 \<and> round64 r = Num v)"
proof (cases "mant64 r = 0")
  case True
  then show ?thesis using assms by (simp add: round64_unfold)
next
  case False
  with mant64_nonneg [of r] have "0 < of_int (mant64 r) * ulp64 r" by simp
  then show ?thesis using assms False by (auto simp: round64_unfold)
qed

lemma round64_no_flush:
  assumes "0 < r" "pow2 (- 1074) \<le> r"
  shows "round64 r = PosInf \<or> (\<exists>v. 0 < v \<and> round64 r = Num v)"
proof -
  have "ulp64 r \<le> r"
  proof (cases "ilog2 r \<le> - 1022")
    case True
    then have "ulp64 r = pow2 (- 1022 - 52)" using assms(1) by (simp add: ulp64_def max_def)
    also have "- 1022 - 52 = (- 1074 :: int)" by simp
    finally show ?thesis using assms(2) by simp
  next
    case False
    then have "ulp64 r = pow2 (ilog2 r - 52)" using assms(1) by (simp add: ulp64_def max_def)
    also have "\<dots> \<le> pow2 (ilog2 r)" by (rule pow2_mono) simp
    also have "\<dots> \<le> r" using ilog2_bounds [OF assms(1)] by simp
    finally show ?thesis .
  qed
  then have "1 \<le> \<bar>r\<bar> / ulp64 r" using assms(1) by (simp add: field_simps)
  then have n1: "1 \<le> mant64 r" unfolding mant64_def by (rule round_even_ge1)
  then have "0 < of_int (mant64 r) * ulp64 r" by simp
  with n1 assms(1) show ?thesis by (auto simp: round64_unfold)
qed

lemma round64_grid:
  assumes "round64 r = Num v"
  shows "\<exists>k::int. v = of_int k * pow2 (- 1074)"
proof (cases "r = 0")
  case True
  with assms have "v = 0" by simp
  then show ?thesis by (intro exI [of _ 0]) simp
next
  case False
  define e where "e = max (ilog2 \<bar>r\<bar>) (- 1022)"
  have e: "0 \<le> e + 1022" by (simp add: e_def)
  have "pow2 (e - 52) = pow2 ((e + 1022) + (- 1074))" by (rule arg_cong [of _ _ pow2]) simp
  then have "ulp64 r = pow2 ((e + 1022) + (- 1074))"
    by (simp only: ulp64_def e_def)
  then have u: "ulp64 r = of_int (2 ^ nat (e + 1022)) * pow2 (- 1074)"
    by (simp only: pow2_split [OF e])
  have "v = of_int (mant64 r) * ulp64 r \<or> v = - (of_int (mant64 r) * ulp64 r)"
    using assms False by (auto simp: round64_unfold split: if_splits)
  then have "v = of_int (mant64 r * 2 ^ nat (e + 1022)) * pow2 (- 1074)
      \<or> v = of_int (- (mant64 r * 2 ^ nat (e + 1022))) * pow2 (- 1074)"
    by (auto simp only: u of_int_mult of_int_minus mult.assoc minus_mult_left)
  then show ?thesis by blast
qed

lemma round64_exact:
  assumes m: "m \<noteq> 0" "\<bar>m\<bar> < 2 ^ 53" and e: "- 1074 \<le> e" "e \<le> 971"
  shows "round64 (of_int m * pow2 e) = Num (of_int m * pow2 e)"
proof -
  define M where "M = \<bar>m\<bar>"
  define r where "r = (of_int m :: rat) * pow2 e"
  have M: "1 \<le> M" "M < 2 ^ 53" using m by (simp_all add: M_def)
  have a: "\<bar>r\<bar> = of_int M * pow2 e" by (simp add: r_def M_def abs_mult)
  have rM: "(1::rat) \<le> of_int M" using M(1) by simp
  define b where "b = ilog2 (of_int M)"
  have bb: "pow2 b \<le> (of_int M :: rat)" "(of_int M :: rat) < pow2 (b + 1)"
    using ilog2_bounds [of "of_int M"] rM by (simp_all add: b_def)
  have "pow2 0 < pow2 (b + 1)" using bb(2) rM by simp
  then have b0: "0 \<le> b" using pow2_less_D [of 0 "b + 1"] by simp
  have "(of_int M :: rat) < of_int (2 ^ 53)" using M(2) by (simp only: of_int_less_iff)
  also have "(of_int (2 ^ 53) :: rat) = pow2 53" by (simp add: pow2_nat)
  finally have "pow2 b < pow2 53" using bb(1) by simp
  then have b52: "b \<le> 52" using pow2_less_D [of b 53] by simp
  have apos: "0 < \<bar>r\<bar>" using a rM by simp
  have il: "ilog2 \<bar>r\<bar> = b + e"
  proof (rule ilog2_unique [OF apos])
    show "pow2 (b + e) \<le> \<bar>r\<bar>"
      using bb(1) by (simp add: a pow2_add)
    have "pow2 (b + e + 1) = pow2 ((b + 1) + e)" by (rule arg_cong [of _ _ pow2]) simp
    then show "\<bar>r\<bar> < pow2 (b + e + 1)"
      using bb(2) by (simp add: a pow2_add)
  qed
  define E where "E = max (b + e) (- 1022)"
  define s where "s = e - (E - 52)"
  have s0: "0 \<le> s" using b52 e(1) by (auto simp: s_def E_def max_def)
  have u: "ulp64 r = pow2 (E - 52)" by (simp add: ulp64_def il E_def)
  have "pow2 e = pow2 (s + (E - 52))" by (rule arg_cong [of _ _ pow2]) (simp add: s_def)
  then have eu: "pow2 e = of_int (2 ^ nat s) * ulp64 r"
    by (simp only: pow2_split [OF s0] u)
  have q: "\<bar>r\<bar> / ulp64 r = of_int (M * 2 ^ nat s)"
    by (simp add: a eu)
  have n: "mant64 r = M * 2 ^ nat s" by (simp only: mant64_def q round_even_of_int)
  have v: "of_int (mant64 r) * ulp64 r = \<bar>r\<bar>" by (simp add: n a eu)
  have n0: "mant64 r \<noteq> 0" using M(1) by (simp add: n)
  have "b + e + 1 \<le> 1024" using b52 e(2) by simp
  then have "pow2 (b + e + 1) \<le> pow2 1024" by (rule pow2_mono)
  then have small: "\<not> pow2 1024 \<le> \<bar>r\<bar>"
    using ilog2_bounds [OF apos] il by simp
  have "r \<noteq> 0" using apos by simp
  then have "round64 r = Num (if 0 < r then \<bar>r\<bar> else - \<bar>r\<bar>)"
    using small n0 by (simp add: round64_unfold v)
  then show ?thesis by (simp add: r_def)
qed

lemma round64_int:
  assumes "n \<noteq> 0" "\<bar>n\<bar> < 2 ^ 53"
  shows "round64 (of_int n) = Num (of_int n)"
  using round64_exact [OF assms, of 0] by simp

lemma round64_pos_eqI:
  assumes r: "0 < r" and lo: "pow2 e \<le> r" and hi: "r < pow2 (e + 1)"
    and e: "- 1022 \<le> e" "e \<le> 1022"
    and n: "\<bar>r / pow2 (e - 52) - of_int n\<bar> < 1 / 2"
  shows "round64 r = Num (of_int n * pow2 (e - 52))"
proof -
  have il: "ilog2 \<bar>r\<bar> = e" using r lo hi by (intro ilog2_unique) auto
  have u: "ulp64 r = pow2 (e - 52)" using e(1) by (simp add: ulp64_def il max_def)
  have re: "mant64 r = n"
    unfolding mant64_def using n r by (intro round_even_near) (simp add: u)
  have "pow2 e = pow2 (52 + (e - 52))" by (rule arg_cong [of _ _ pow2]) simp
  then have pe: "pow2 e = pow2 52 * ulp64 r" by (simp only: pow2_add u)
  have "pow2 (e + 1) = pow2 (53 + (e - 52))" by (rule arg_cong [of _ _ pow2]) simp
  then have pe1: "pow2 (e + 1) = pow2 53 * ulp64 r" by (simp only: pow2_add u)
  have "pow2 52 * ulp64 r \<le> r" "r < pow2 53 * ulp64 r"
    using lo hi by (simp_all only: pe pe1)
  then have q: "pow2 52 \<le> r / ulp64 r" "r / ulp64 r < pow2 53"
    by (simp_all add: pos_le_divide_eq pos_divide_less_eq)
  have "\<bar>r / ulp64 r - of_int n\<bar> < 1 / 2" using n by (simp only: u)
  then have nb: "pow2 52 - 1 / 2 < (of_int n :: rat)" "(of_int n :: rat) < pow2 53 + 1 / 2"
    using q by linarith+
  have "(1::rat) \<le> pow2 52" using pow2_mono [of 0 52] by simp
  then have "(0::rat) < of_int n" using nb(1) by simp
  then have n1: "0 < n" by simp
  have p53: "pow2 53 = of_int (2 ^ 53)" by (simp add: pow2_nat)
  have "(of_int n :: rat) < of_int (2 ^ 53 + 1)" using nb(2) by (simp add: p53)
  then have "n < 2 ^ 53 + 1" by (simp only: of_int_less_iff)
  then have "n \<le> 2 ^ 53" by simp
  then have "(of_int n :: rat) \<le> of_int (2 ^ 53)" by (simp only: of_int_le_iff)
  then have "(of_int n :: rat) \<le> pow2 53" by (simp only: p53)
  then have "of_int n * ulp64 r \<le> pow2 53 * ulp64 r" by (simp add: mult_right_mono)
  also have "\<dots> = pow2 (e + 1)" by (simp only: pe1)
  also have "\<dots> < pow2 1024" using e(2) by (intro pow2_strict_mono) simp
  finally have small: "\<not> pow2 1024 \<le> of_int n * ulp64 r" by simp
  have "r \<noteq> 0" using r by simp
  then show ?thesis
    using r small n1 by (simp add: round64_unfold re) (simp add: u)
qed

subsection \<open>Arithmetic on finite numbers\<close>

lemma js_add_Num [simp]:
  "js_add (Num a) (Num b) = (if a + b = 0 then Num 0 else round64 (a + b))"
  by (simp add: js_add_def js_zero_def)

lemma js_sub_Num [simp]:
  "js_sub (Num a) (Num b) = (if a - b = 0 then Num 0 else round64 (a - b))"
  by (simp add: js_sub_def js_add_def js_zero_def)

lemma js_mul_Num:
  "js_mul (Num a) (Num b) =
     (if a * b = 0 then js_zero ((a < 0) \<noteq> (b < 0)) else round64 (a * b))"
  by (simp add: js_mul_def)

lemma js_div_Num:
  "js_div (Num a) (Num b) =
     (if b = 0 then (if a = 0 then NaN else js_inf (a < 0))
      else if a = 0 then js_zero (b < 0) else round64 (a / b))"
  by (simp add: js_div_def)

lemma round64_numeral [simp]:
  "numeral k < (9007199254740992 :: int) \<Longrightarrow> round64 (numeral k) = Num (numeral k)"
  using round64_int [of "numeral k"] by simp

lemma round64_neg_numeral [simp]:
  "numeral k < (9007199254740992 :: int) \<Longrightarrow> round64 (- numeral k) = Num (- numeral k)"
  using round64_int [of "- numeral k"] by simp

lemma round64_1 [simp]: "round64 1 = Num 1"
  using round64_int [of 1] by simp

lemma pow2_m2: "pow2 (- 2) = 1 / 4"
  using pow2_neg_nat [of 2] by simp

lemma round64_quarters:
  "m \<noteq> 0 \<Longrightarrow> \<bar>m\<bar> < 2 ^ 53 \<Longrightarrow> round64 (of_int m / 4) = Num (of_int m / 4)"
  using round64_exact [of m "- 2"] unfolding pow2_m2 by simp

lemma p50: "pow2 (- 50) = 1 / 1125899906842624"
    using pow2_neg_nat [of 50] by simp

lemma round64_initial_quotient:
  "round64 (12000 / 2063) = Num (1637275676455585 / 281474976710656)"
proof -
  have diff_conv: "(2 - 52 :: int) = - 50" by simp
  have "round64 (12000 / 2063) = Num (of_int 6549102705822340 * pow2 (2 - 52))"
  proof (rule round64_pos_eqI)
    show "pow2 2 \<le> (12000 / 2063 :: rat)" using pow2_nat [of 2] by simp
    show "(12000 / 2063 :: rat) < pow2 (2 + 1)" using pow2_nat [of 3] by simp
    show "\<bar>(12000 / 2063 :: rat) / pow2 (2 - 52) - of_int 6549102705822340\<bar> < 1 / 2"
      unfolding diff_conv by (simp add: p50)
  qed simp_all
  then show ?thesis unfolding diff_conv by (simp add: p50)
qed

declare round64_initial_quotient [simp]

lemma initial_floor [simp]: "\<lfloor>1637275676455585 / 281474976710656 :: rat\<rfloor> = 5"
  by (rule floor_unique) simp_all

subsection \<open>The order of minimum and maximum\<close>

lemma js_below_NaN [simp]: "\<not> js_below NaN x" "\<not> js_below x NaN"
  by (cases x; simp add: js_below_def)+

lemma js_below_irrefl [simp]: "\<not> js_below a a"
  by (cases a) (simp_all add: js_below_def)

lemma js_below_trans: "js_below a b \<Longrightarrow> js_below b c \<Longrightarrow> js_below a c"
  by (cases a; cases b; cases c) (auto simp: js_below_def)

lemma js_below_linear: "a \<noteq> NaN \<Longrightarrow> b \<noteq> NaN \<Longrightarrow> js_below a b \<or> a = b \<or> js_below b a"
  by (cases a; cases b) (auto simp: js_below_def)

lemma js_below_asym: "js_below a b \<Longrightarrow> \<not> js_below b a"
  using js_below_trans [of a b a] by auto

lemma js_min2_NaN [simp]: "js_min2 NaN x = NaN" "js_min2 x NaN = NaN"
  by (simp_all add: js_min2_def)

lemma js_max2_NaN [simp]: "js_max2 NaN x = NaN" "js_max2 x NaN = NaN"
  by (simp_all add: js_max2_def)

lemma js_min2_not_NaN: "a \<noteq> NaN \<Longrightarrow> b \<noteq> NaN \<Longrightarrow> js_min2 a b \<noteq> NaN"
  by (simp add: js_min2_def)

lemma js_below_PosInf [simp]: "js_below x PosInf = (x \<noteq> NaN \<and> x \<noteq> PosInf)" "\<not> js_below PosInf x"
  by (cases x; simp add: js_below_def)+

lemma js_below_NegInf [simp]: "js_below NegInf x = (x \<noteq> NaN \<and> x \<noteq> NegInf)" "\<not> js_below x NegInf"
  by (cases x; simp add: js_below_def)+

lemma js_min2_PosInf [simp]: "js_min2 PosInf x = x"
  by (cases x) (simp_all add: js_min2_def)

lemma js_max2_NegInf [simp]: "js_max2 NegInf x = x"
  by (cases x) (simp_all add: js_max2_def)

lemma Math_max_pair: "Math_max [a, b] = js_max2 a b"
  by (simp add: Math_max_def)

lemma Math_min_triple: "Math_min [a, b, c] = js_min2 (js_min2 a b) c"
  by (simp add: Math_min_def)

lemma js_min2_assoc: "js_min2 (js_min2 a b) c = js_min2 a (js_min2 b c)"
proof (cases "a = NaN \<or> b = NaN \<or> c = NaN")
  case True
  then show ?thesis by (auto simp: js_min2_def)
next
  case False
  then have n: "a \<noteq> NaN" "b \<noteq> NaN" "c \<noteq> NaN" by simp_all
  show ?thesis
    using n js_below_linear [of a b] js_below_linear [of b c] js_below_linear [of a c]
    by (auto simp: js_min2_def dest: js_below_trans js_below_asym)
qed

lemma Math_min_quad: "Math_min [a, b, c, d] = js_min2 a (Math_min [b, c, d])"
  by (simp add: Math_min_def js_min2_assoc)

lemma spec_clamp_cases_eq:
  assumes "js_le lower upper"
  shows "spec_clamp_cases x lower upper = spec_clamp x lower upper"
proof (cases "x = NaN")
  case True
  then show ?thesis by (simp add: spec_clamp_cases_def spec_clamp_def)
next
  case False
  from assms have n: "lower \<noteq> NaN" "upper \<noteq> NaN" and lu: "\<not> js_below upper lower"
    using js_below_asym by (auto simp: js_le_def)
  show ?thesis
    using False n lu js_below_linear [of x lower] js_below_linear [of x upper]
      js_below_linear [of lower upper]
    by (auto simp: spec_clamp_cases_def spec_clamp_def js_min2_def js_max2_def
          dest: js_below_trans js_below_asym)
qed

lemma js_le_simps [simp]:
  "js_le (Num a) (Num b) = (a \<le> b)"
  "js_le NaN x = False"
  "js_le x NaN = False"
  "js_le x PosInf = (x \<noteq> NaN)"
  "js_le NegInf x = (x \<noteq> NaN)"
  "js_le PosInf (Num b) = False"
  "js_le PosInf NegInf = False"
  "js_le (Num a) NegInf = False"
  by (cases x; auto simp: js_le_def js_below_def)+

lemma js_lt_NaN [simp]: "\<not> js_lt x NaN"
  by (cases x) simp_all

subsection \<open>Evaluation on the example states\<close>

lemmas js_eval =
  Let_def findCustomer_def creditOrZero_def compareOrders_def js_truthy_def js_gt_def
  allocateOrder_def allocatedExcept_def allocatedSum_def spec_maxAffordableQty_def
  spec_maxAvailableQty_def spec_clamp_def Math_min_def Math_max_def js_min2_def js_max2_def
  js_below_def js_seq_def js_leq_def js_mul_Num js_div_Num js_zero_def js_inf_def is_double_def

subsection \<open>Lists of orders\<close>

lemma round64_quarter_vals [simp]:
  "round64 (10315 / 4) = Num (10315 / 4)"
  using round64_quarters [of 10315] by simp

lemma foldl_cond_filter:
  "foldl (\<lambda>acc x. if P x then f acc x else acc) a xs = foldl f a (filter P xs)"
  by (induction xs arbitrary: a) simp_all

lemma allocatedExcept_filter:
  "allocatedExcept orderId os = allocatedSum (filter (\<lambda>ord. o_id ord \<noteq> orderId) os)"
  unfolding allocatedExcept_def allocatedSum_def by (rule foldl_cond_filter)

lemma findIndex_Some:
  "findIndex P xs = Some i \<Longrightarrow> i < length xs \<and> P (xs ! i) \<and> (\<forall>j<i. \<not> P (xs ! j))"
proof (induction xs arbitrary: i)
  case Nil
  then show ?case by simp
next
  case (Cons x xs)
  show ?case
  proof (cases "P x")
    case True
    with Cons.prems show ?thesis by simp
  next
    case False
    with Cons.prems obtain k where k: "findIndex P xs = Some k" "i = Suc k"
      by auto
    from Cons.IH [OF k(1)] False k(2) show ?thesis
      by (auto simp: nth_Cons split: nat.splits)
  qed
qed

lemma filter_other_ids:
  assumes "distinct (map o_id os)" "i < length os"
  shows "filter (\<lambda>x. o_id x \<noteq> o_id (os ! i)) os = take i os @ drop (Suc i) os"
  using assms
proof (induction os arbitrary: i)
  case Nil
  then show ?case by simp
next
  case (Cons x xs)
  show ?case
  proof (cases i)
    case 0
    have "\<forall>y\<in>set xs. o_id y \<noteq> o_id x"
      using Cons.prems(1) by (metis distinct.simps(2) imageI list.simps(9) list.set_map)
    then have "filter (\<lambda>y. o_id y \<noteq> o_id x) xs = xs"
      by (simp add: filter_id_conv)
    with 0 show ?thesis by simp
  next
    case (Suc k)
    with Cons.prems have k: "k < length xs" and d: "distinct (map o_id xs)" by simp_all
    have "xs ! k \<in> set xs" using k by simp
    then have "o_id x \<noteq> o_id (xs ! k)"
      using Cons.prems(1) by auto
    with Cons.IH [OF d k] Suc show ?thesis by simp
  qed
qed

subsection \<open>Comparisons\<close>

lemma js_lt_irrefl [simp]: "\<not> js_lt a a"
  by (cases a) simp_all

lemma js_lt_trans: "js_lt a b \<Longrightarrow> js_lt b c \<Longrightarrow> js_lt a c"
  by (cases a; cases b; cases c) simp_all

lemma js_lt_asym: "js_lt a b \<Longrightarrow> \<not> js_lt b a"
  using js_lt_trans [of a b a] by auto

lemma js_seq_refl [simp]: "js_seq a a = (a \<noteq> NaN)"
  by (simp add: js_seq_def)

lemma js_leq_not_lt: "js_leq a b \<Longrightarrow> \<not> js_lt b a"
  by (cases a; cases b) (auto simp: js_leq_def js_seq_def)

lemma js_leq_iff_not_lt: "a \<noteq> NaN \<Longrightarrow> b \<noteq> NaN \<Longrightarrow> js_leq b a = (\<not> js_lt a b)"
  by (cases a; cases b) (auto simp: js_leq_def js_seq_def)

lemma js_leq_trans: "js_leq a b \<Longrightarrow> js_leq b c \<Longrightarrow> js_leq a c"
  by (cases a; cases b; cases c) (auto simp: js_leq_def js_seq_def)

lemma js_leq_neq_lt:
  "js_leq a b \<Longrightarrow> a \<noteq> b \<Longrightarrow> a \<noteq> NegZero \<Longrightarrow> b \<noteq> NegZero \<Longrightarrow> js_lt a b"
  by (cases a; cases b) (auto simp: js_leq_def js_seq_def)

subsection \<open>The comparator of the priority sort\<close>

lemma is_double_grid: "is_double r \<Longrightarrow> \<exists>k :: int. r = of_int k * pow2 (- 1074)"
  unfolding is_double_def by (rule round64_grid)

lemma round64_diff_sign:
  assumes "is_double a" "is_double b"
  shows "js_gt (js_sub (Num b) (Num a)) (Num 0) = (a < b)"
proof (cases "a = b")
  case True
  then show ?thesis by (simp add: js_gt_def)
next
  case False
  obtain k l :: int where k: "a = of_int k * pow2 (- 1074)" and l: "b = of_int l * pow2 (- 1074)"
    using assms is_double_grid by blast
  show ?thesis
  proof (cases "a < b")
    case True
    then have "k < l"
      using k l by (simp add: mult_less_cancel_right)
    then have "1 \<le> l - k" by simp
    then have "(1 :: rat) \<le> of_int (l - k)" using of_int_1_le_iff by blast
    then have "1 * pow2 (- 1074) \<le> of_int (l - k) * pow2 (- 1074)"
      by (intro mult_right_mono) simp_all
    then have "pow2 (- 1074) \<le> b - a"
      using k l by (simp add: algebra_simps)
    with True round64_no_flush [of "b - a"]
    have "round64 (b - a) = PosInf \<or> (\<exists>v>0. round64 (b - a) = Num v)" by simp
    with True False show ?thesis by (auto simp: js_gt_def)
  next
    case False
    with \<open>a \<noteq> b\<close> have "b - a < 0" by simp
    from round64_neg_cases [OF this] False \<open>a \<noteq> b\<close> show ?thesis
      by (auto simp: js_gt_def)
  qed
qed

lemma js_sub_positive:
  assumes "a \<noteq> NaN" "b \<noteq> NaN" "a \<noteq> NegZero" "b \<noteq> NegZero" "js_double a" "js_double b"
  shows "js_gt (js_sub b a) (Num 0) = js_lt a b"
proof (cases a)
  case (Num x)
  then show ?thesis
    using assms round64_diff_sign [of x]
    by (cases b) (auto simp: js_gt_def js_sub_def js_add_def)
next
  case PosInf
  then show ?thesis using assms by (cases b) (auto simp: js_gt_def js_sub_def js_add_def)
next
  case NegInf
  then show ?thesis using assms by (cases b) (auto simp: js_gt_def js_sub_def js_add_def)
qed (use assms in simp_all)

lemma findCustomer_in_set: "findCustomer cs cid = Some c \<Longrightarrow> c \<in> set cs \<and> c_id c = cid"
  by (auto simp: findCustomer_def find_Some_iff)

lemma creditOrZero_not_NaN [simp]: "creditOrZero cs ord \<noteq> NaN"
  by (simp add: creditOrZero_def js_truthy_def split: option.splits)

lemma creditOrZero_not_NegZero [simp]: "creditOrZero cs ord \<noteq> NegZero"
  by (simp add: creditOrZero_def js_truthy_def split: option.splits)

lemma round64_zero_double: "is_double 0"
  by (simp add: is_double_def)

lemma creditOrZero_double:
  "list_all (\<lambda>c. js_double (creditRemaining c)) cs \<Longrightarrow> js_double (creditOrZero cs ord)"
  using findCustomer_in_set [of cs "customerId ord"]
  by (auto simp: creditOrZero_def round64_zero_double list_all_iff split: option.splits)

lemma creditOrZero_found:
  "findCustomer cs (customerId ord) = Some c
   \<Longrightarrow> creditOrZero cs ord
       = (if creditRemaining c = NaN \<or> creditRemaining c = NegZero then Num 0
          else creditRemaining c)"
  by (auto simp: creditOrZero_def js_truthy_def)

lemma compareOrders_after:
  "list_all (\<lambda>c. js_double (creditRemaining c)) cs
   \<Longrightarrow> js_gt (compareOrders cs x y) (Num 0) = js_lt (creditOrZero cs x) (creditOrZero cs y)"
  by (simp add: compareOrders_def js_sub_positive creditOrZero_double)

subsection \<open>The priority sort\<close>

lemma set_sortInsert: "set (sortInsert cmp x xs) = insert x (set xs)"
  by (induction xs) auto

lemma mset_sortInsert: "mset (sortInsert cmp x xs) = add_mset x (mset xs)"
  by (induction xs) auto

lemma mset_Array_sort: "mset (Array_sort cmp xs) = mset xs"
  by (induction xs) (simp_all add: mset_sortInsert)

lemma set_Array_sort: "set (Array_sort cmp xs) = set xs"
  by (induction xs) (simp_all add: set_sortInsert)

lemma length_Array_sort: "length (Array_sort cmp xs) = length xs"
  using mset_Array_sort [of cmp xs] by (metis size_mset)

lemma sorted_sortInsert:
  assumes d: "list_all (\<lambda>c. js_double (creditRemaining c)) cs"
    and "sorted_wrt (\<lambda>a b. js_leq (creditOrZero cs b) (creditOrZero cs a)) xs"
  shows "sorted_wrt (\<lambda>a b. js_leq (creditOrZero cs b) (creditOrZero cs a))
           (sortInsert (compareOrders cs) x xs)"
  using assms(2)
proof (induction xs)
  case Nil
  then show ?case by simp
next
  case (Cons y ys)
  show ?case
  proof (cases "js_lt (creditOrZero cs x) (creditOrZero cs y)")
    case True
    then have "js_leq (creditOrZero cs x) (creditOrZero cs y)"
      by (simp add: js_leq_def)
    with True Cons show ?thesis
      by (auto simp: compareOrders_after [OF d] set_sortInsert)
  next
    case False
    then have xy: "js_leq (creditOrZero cs y) (creditOrZero cs x)"
      by (simp add: js_leq_iff_not_lt)
    have "js_leq (creditOrZero cs z) (creditOrZero cs x)" if "z \<in> set ys" for z
      using Cons.prems that xy js_leq_trans by auto
    with False xy Cons.prems show ?thesis
      by (auto simp: compareOrders_after [OF d])
  qed
qed

lemma sorted_Array_sort:
  "list_all (\<lambda>c. js_double (creditRemaining c)) cs
   \<Longrightarrow> sorted_wrt (\<lambda>a b. js_leq (creditOrZero cs b) (creditOrZero cs a))
         (Array_sort (compareOrders cs) xs)"
  by (induction xs) (simp_all add: sorted_sortInsert)

lemma filter_sortInsert_other:
  "\<not> P x \<Longrightarrow> filter P (sortInsert cmp x xs) = filter P xs"
  by (induction xs) auto

lemma filter_sortInsert_same:
  "list_all (\<lambda>c. js_double (creditRemaining c)) cs
   \<Longrightarrow> filter (\<lambda>y. creditOrZero cs y = creditOrZero cs x) (sortInsert (compareOrders cs) x xs)
       = x # filter (\<lambda>y. creditOrZero cs y = creditOrZero cs x) xs"
  by (induction xs) (auto simp: compareOrders_after)

lemma Array_sort_stable:
  assumes d: "list_all (\<lambda>c. js_double (creditRemaining c)) cs"
  shows "filter (\<lambda>y. creditOrZero cs y = v) (Array_sort (compareOrders cs) xs)
         = filter (\<lambda>y. creditOrZero cs y = v) xs"
proof (induction xs)
  case Nil
  then show ?case by simp
next
  case (Cons x xs)
  show ?case
  proof (cases "creditOrZero cs x = v")
    case True
    with Cons filter_sortInsert_same [OF d, of x "Array_sort (compareOrders cs) xs"]
    show ?thesis by auto
  next
    case False
    with Cons show ?thesis by (simp add: filter_sortInsert_other)
  qed
qed

lemma Array_sort_priorityOrder:
  "list_all (\<lambda>c. js_double (creditRemaining c)) cs
   \<Longrightarrow> spec_priorityOrder cs os (Array_sort (compareOrders cs) os)"
  by (simp add: spec_priorityOrder_def mset_Array_sort sorted_Array_sort Array_sort_stable
        list_all_iff)

lemma sorted_wrt_remove1: "sorted_wrt R xs \<Longrightarrow> sorted_wrt R (remove1 a xs)"
proof (induction xs)
  case Nil
  then show ?case by simp
next
  case (Cons y ys)
  then show ?case
    using set_remove1_subset [of a ys] by auto
qed

lemma sortInsert_remove1:
  assumes d: "list_all (\<lambda>c. js_double (creditRemaining c)) cs"
    and "x \<in> set ps"
    and "sorted_wrt (\<lambda>a b. js_leq (creditOrZero cs b) (creditOrZero cs a)) ps"
    and "filter (\<lambda>y. creditOrZero cs y = creditOrZero cs x) ps = x # rest"
  shows "sortInsert (compareOrders cs) x (remove1 x ps) = ps"
  using assms(2-)
proof (induction ps arbitrary: rest)
  case Nil
  then show ?case by simp
next
  case (Cons y ys)
  show ?case
  proof (cases "y = x")
    case True
    show ?thesis
    proof (cases ys)
      case Nil
      with True show ?thesis by simp
    next
      case (Cons z zs)
      with Cons.prems(2) True have "js_leq (creditOrZero cs z) (creditOrZero cs x)" by simp
      then have "\<not> js_lt (creditOrZero cs x) (creditOrZero cs z)"
        by (rule js_leq_not_lt)
      with True Cons show ?thesis by (simp add: compareOrders_after [OF d])
    qed
  next
    case False
    with Cons.prems(1) have x: "x \<in> set ys" by simp
    have ne: "creditOrZero cs y \<noteq> creditOrZero cs x"
      using Cons.prems(3) False by (auto split: if_splits)
    have "js_leq (creditOrZero cs x) (creditOrZero cs y)"
      using Cons.prems(2) x by simp
    then have lt: "js_lt (creditOrZero cs x) (creditOrZero cs y)"
      using ne by (intro js_leq_neq_lt) simp_all
    have "sortInsert (compareOrders cs) x (remove1 x ys) = ys"
      using Cons.IH [OF x, of rest] Cons.prems(2,3) ne by simp
    with False lt show ?thesis by (simp add: compareOrders_after [OF d])
  qed
qed

lemma priorityOrder_unique:
  assumes d: "list_all (\<lambda>c. js_double (creditRemaining c)) cs"
    and "spec_priorityOrder cs os ps"
  shows "ps = Array_sort (compareOrders cs) os"
  using assms(2)
proof (induction os arbitrary: ps)
  case Nil
  then show ?case by (simp add: spec_priorityOrder_def)
next
  case (Cons x xs)
  let ?k = "creditOrZero cs"
  from Cons.prems have m: "mset ps = add_mset x (mset xs)"
    and s: "sorted_wrt (\<lambda>a b. js_leq (?k b) (?k a)) ps"
    by (simp_all add: spec_priorityOrder_def)
  from Cons.prems have f: "filter (\<lambda>y. ?k y = ?k z) ps = filter (\<lambda>y. ?k y = ?k z) (x # xs)"
    if "z \<in> set (x # xs)" for z
    using that unfolding spec_priorityOrder_def list_all_iff by blast
  have x: "x \<in> set ps"
    using m by (metis mset_eq_setD list.set_intros(1) set_mset_add_mset_insert set_mset_mset insertI1)
  have "spec_priorityOrder cs xs (remove1 x ps)"
    unfolding spec_priorityOrder_def list_all_iff
  proof (intro conjI ballI)
    show "mset (remove1 x ps) = mset xs" using m by simp
    show "sorted_wrt (\<lambda>a b. js_leq (?k b) (?k a)) (remove1 x ps)"
      using s by (rule sorted_wrt_remove1)
    fix z assume z: "z \<in> set xs"
    have "filter (\<lambda>y. ?k y = ?k z) (remove1 x ps) = remove1 x (filter (\<lambda>y. ?k y = ?k z) (x # xs))"
      using f [of z] z by (simp add: filter_remove1)
    also have "\<dots> = filter (\<lambda>y. ?k y = ?k z) xs"
      by (auto simp: remove1_idem)
    finally show "filter (\<lambda>y. ?k y = ?k z) (remove1 x ps) = filter (\<lambda>y. ?k y = ?k z) xs" .
  qed
  then have ih: "remove1 x ps = Array_sort (compareOrders cs) xs"
    by (rule Cons.IH)
  have "filter (\<lambda>y. ?k y = ?k x) ps = x # filter (\<lambda>y. ?k y = ?k x) xs"
    using f [of x] by simp
  from sortInsert_remove1 [OF d x s this] ih show ?case by simp
qed

subsection \<open>What the operations keep\<close>

lemma allocateOrder_strip:
  "allocateOrder cs ord r e = (ord', r', e') \<Longrightarrow> stripAllocation ord' = stripAllocation ord"
  by (auto simp: allocateOrder_def Let_def stripAllocation_def split: option.splits)

lemma allocatePass_strip:
  "allocatePass cs os r e = (os', r', e') \<Longrightarrow> map stripAllocation os' = map stripAllocation os"
proof (induction os arbitrary: r e os' r' e')
  case Nil
  then show ?case by simp
next
  case (Cons ord rest)
  obtain o1 r1 e1 where 1: "allocateOrder cs ord r e = (o1, r1, e1)"
    by (cases "allocateOrder cs ord r e") auto
  obtain os2 r2 e2 where 2: "allocatePass cs rest r1 e1 = (os2, r2, e2)"
    by (cases "allocatePass cs rest r1 e1") auto
  from Cons.prems 1 2 have "os' = o1 # os2" by simp
  with allocateOrder_strip [OF 1] Cons.IH [OF 2] show ?case by simp
qed

lemma runAutoAssignment_strip:
  "map stripAllocation (orders (state (runAutoAssignment app)))
   = map stripAllocation (Array_sort (compareOrders (customers (state app))) (orders (state app)))"
proof -
  obtain os' r' e' where p: "allocatePass (customers (state app))
      (Array_sort (compareOrders (customers (state app))) (orders (state app)))
      (totalStock (state app)) [] = (os', r', e')"
    using prod_cases3 by blast
  from allocatePass_strip [OF p] p show ?thesis
    by (simp add: runAutoAssignment_def)
qed

lemma runAutoAssignment_customers [simp]:
  "customers (state (runAutoAssignment app)) = customers (state app)"
  by (simp add: runAutoAssignment_def split: prod.splits)

lemma runAutoAssignment_pass:
  "allocatePass (customers (state app))
     (Array_sort (compareOrders (customers (state app))) (orders (state app)))
     (totalStock (state app)) []
   = (orders (state (runAutoAssignment app)), remainingStock (state (runAutoAssignment app)),
      errors (runAutoAssignment app))"
  by (simp add: runAutoAssignment_def split: prod.splits)

lemma creditOrZero_strip [simp]: "creditOrZero cs (stripAllocation ord) = creditOrZero cs ord"
  by (simp add: creditOrZero_def stripAllocation_def)

lemma priorityOrder_strip:
  assumes "spec_priorityOrder cs os ps"
  shows "spec_priorityOrder cs (map stripAllocation os) (map stripAllocation ps)"
proof -
  from assms have m: "mset ps = mset os"
    and s: "sorted_wrt (\<lambda>a b. js_leq (creditOrZero cs b) (creditOrZero cs a)) ps"
    and f: "\<And>x. x \<in> set os \<Longrightarrow>
              filter (\<lambda>y. creditOrZero cs y = creditOrZero cs x) ps
              = filter (\<lambda>y. creditOrZero cs y = creditOrZero cs x) os"
    unfolding spec_priorityOrder_def list_all_iff by blast+
  have "mset (map stripAllocation ps) = mset (map stripAllocation os)"
    using m by (metis mset_map)
  moreover have "sorted_wrt (\<lambda>a b. js_leq (creditOrZero cs b) (creditOrZero cs a))
                   (map stripAllocation ps)"
    using s by (simp add: sorted_wrt_map)
  moreover have "filter (\<lambda>y. creditOrZero cs y = creditOrZero cs (stripAllocation x))
                   (map stripAllocation ps)
                 = filter (\<lambda>y. creditOrZero cs y = creditOrZero cs (stripAllocation x))
                   (map stripAllocation os)" if "x \<in> set os" for x
    using f [OF that] by (simp add: filter_map comp_def)
  ultimately show ?thesis
    unfolding spec_priorityOrder_def list_all_iff by auto
qed

lemma priorityOrder_refl:
  "sorted_wrt (\<lambda>a b. js_leq (creditOrZero cs b) (creditOrZero cs a)) os
   \<Longrightarrow> spec_priorityOrder cs os os"
  by (simp add: spec_priorityOrder_def list_all_iff)

lemma resetAllocations_strip:
  "map stripAllocation (orders (state (resetAllocations app))) = map stripAllocation (orders (state app))"
  by (simp add: resetAllocations_def stripAllocation_def)

lemma updateAllocation_strip:
  "map stripAllocation (orders (state (updateAllocation app orderId newQty)))
   = map stripAllocation (orders (state app))"
proof (cases "findIndex (\<lambda>ord. o_id ord = orderId) (orders (state app))")
  case None
  then show ?thesis by (simp add: updateAllocation_def)
next
  case (Some i)
  then have i: "i < length (orders (state app))"
    using findIndex_Some by blast
  have "map stripAllocation ((orders (state app))[i := (orders (state app) ! i)\<lparr>allocatedQty := a, total := t\<rparr>])
        = map stripAllocation (orders (state app))" for a t
    using i by (simp add: map_update stripAllocation_def list_update_same_conv)
  with Some show ?thesis
    by (simp add: updateAllocation_def Let_def split: option.splits)
qed

lemma perform_extends:
  "oper \<noteq> AutoAssign \<Longrightarrow>
   \<exists>ext. map stripAllocation (orders (state (perform app oper)))
          = map stripAllocation (orders (state app)) @ ext"
  by (cases oper)
     (simp_all add: resetAllocations_strip updateAllocation_strip addNewOrder_def Let_def)

lemma foldl_perform_extends:
  "AutoAssign \<notin> set opers \<Longrightarrow>
   \<exists>ext. map stripAllocation (orders (state (foldl perform app opers)))
          = map stripAllocation (orders (state app)) @ ext"
proof (induction opers arbitrary: app)
  case Nil
  then show ?case by simp
next
  case (Cons oper opers)
  then obtain e1 where 1: "map stripAllocation (orders (state (perform app oper)))
          = map stripAllocation (orders (state app)) @ e1"
    using perform_extends [of oper app] by auto
  from Cons obtain e2 where "map stripAllocation (orders (state (foldl perform (perform app oper) opers)))
          = map stripAllocation (orders (state (perform app oper))) @ e2"
    by fastforce
  with 1 show ?case by simp
qed

lemma foldl_perform_keeps:
  assumes "AutoAssign \<notin> set opers"
  shows "take (length (orders (state app)))
           (map stripAllocation (orders (state (foldl perform app opers))))
         = map stripAllocation (orders (state app))"
proof -
  from foldl_perform_extends [OF assms, of app] obtain ext where
    "map stripAllocation (orders (state (foldl perform app opers)))
          = map stripAllocation (orders (state app)) @ ext" by blast
  then show ?thesis by simp
qed

lemma length_runAutoAssignment:
  "length (orders (state (runAutoAssignment app))) = length (orders (state app))"
  using arg_cong [OF runAutoAssignment_strip [of app], of length]
  by (simp add: length_Array_sort)

lemma tieApp_doubles:
  "list_all (\<lambda>c. js_double (creditRemaining c)) (customers (state tieApp))"
  by (simp add: tieApp_def is_double_def)

lemma tieApp_sorted:
  "Array_sort (compareOrders (customers (state tieApp))) (orders (state tieApp))
   = map (\<lambda>i. orders (state tieApp) ! i) [1, 3, 0, 2]"
  by (simp add: tieApp_def js_eval)

lemma tieApp_pass:
  "allocatePass (customers (state tieApp)) (map (\<lambda>i. orders (state tieApp) ! i) [1, 3, 0, 2])
     (totalStock (state tieApp)) []
   = (map (\<lambda>(i, q). (orders (state tieApp) ! i)\<lparr>allocatedQty := Num q, total := Num (q * 10)\<rparr>)
        [(1, 4), (3, 4), (0, 2), (2, 0)], Num 0, [])"
  by (simp add: tieApp_def js_eval)

subsection \<open>The violation checks of the automatic pass\<close>

lemma js_le_imp_leq: "js_le a b \<Longrightarrow> js_leq a b"
  by (cases a; cases b) (auto simp: js_le_def js_below_def js_leq_def js_seq_def)

lemma js_min2_le:
  "a \<noteq> NaN \<Longrightarrow> b \<noteq> NaN \<Longrightarrow> js_le (js_min2 a b) a \<and> js_le (js_min2 a b) b"
  using js_below_linear [of a b] by (auto simp: js_min2_def js_le_def)

lemma js_le_trans: "js_le a b \<Longrightarrow> js_le b c \<Longrightarrow> js_le a c"
  using js_below_trans by (auto simp: js_le_def)

lemma Math_min_triple_bound:
  "Math_min [a, b, c] = NaN
   \<or> (js_le (Math_min [a, b, c]) a \<and> js_le (Math_min [a, b, c]) b \<and> js_le (Math_min [a, b, c]) c)"
proof (cases "a = NaN \<or> b = NaN \<or> c = NaN")
  case True
  then show ?thesis by (auto simp: Math_min_triple)
next
  case False
  then have n: "a \<noteq> NaN" "b \<noteq> NaN" "c \<noteq> NaN" by simp_all
  have m: "js_min2 a b \<noteq> NaN" using n by (simp add: js_min2_def)
  from js_min2_le [OF n(1,2)] js_min2_le [OF m n(3)] show ?thesis
    unfolding Math_min_triple using js_le_trans by blast
qed

lemma Math_max_zero:
  "Math_max [Num 0, m] = (if m = NaN then NaN else if js_lt (Num 0) m then m else Num 0)"
  by (simp add: Math_max_pair js_max2_def js_below_def)

lemma Math_min_NaN: "Math_min [a, b, NaN] = NaN"
  by (simp add: Math_min_triple)

lemma js_leq_Num [simp]: "js_leq (Num a) (Num b) = (a \<le> b)"
  by (auto simp: js_leq_def js_seq_def)

lemma round64_nonneg:
  "0 < r \<Longrightarrow> js_leq (Num 0) (round64 r)"
  using round64_pos_cases [of r] by (auto simp: js_leq_def js_seq_def)

lemma div_nonneg_Num:
  assumes "0 \<le> x" "0 \<le> y"
  shows "js_div (Num x) (Num y) = NaN \<or> js_leq (Num 0) (js_div (Num x) (Num y))"
proof (cases "x = 0 \<or> y = 0")
  case True
  with assms show ?thesis
    by (auto simp: js_div_Num js_zero_def js_inf_def js_leq_def js_seq_def)
next
  case False
  with assms have "0 < x / y" by simp
  from round64_nonneg [OF this] False show ?thesis
    by (simp add: js_div_Num)
qed

lemma div_nonneg:
  assumes "js_leq (Num 0) c" "js_leq (Num 0) p" "p \<noteq> NegZero"
  shows "js_div c p = NaN \<or> js_leq (Num 0) (js_div c p)"
proof (cases c)
  case c: (Num x)
  show ?thesis
  proof (cases p)
    case (Num y)
    with c assms div_nonneg_Num [of x y] show ?thesis by simp
  qed (use c assms in \<open>auto simp: js_div_def js_leq_def js_seq_def js_zero_def js_inf_def\<close>)
next
  case NegZero
  with assms show ?thesis
    by (cases p) (auto simp: js_div_def js_leq_def js_seq_def js_zero_def js_inf_def)
next
  case PosInf
  with assms show ?thesis
    by (cases p) (auto simp: js_div_def js_leq_def js_seq_def js_zero_def js_inf_def)
qed (use assms in \<open>auto simp: js_leq_def js_seq_def js_div_def\<close>)

lemma floor_nonneg:
  "js_leq (Num 0) q \<Longrightarrow> js_leq (Math_floor q) q \<and> js_leq (Num 0) (Math_floor q)"
proof (cases q)
  case (Num x)
  assume "js_leq (Num 0) q"
  with Num show ?thesis by simp
qed (auto simp: js_leq_def js_seq_def)

lemma credit_check_silent:
  assumes "f = NaN \<or> (js_leq f q \<and> js_leq (Num 0) q)"
  shows "\<not> js_gt (Math_max [Num 0, Math_min [req, rem, f]]) q"
proof (cases "Math_min [req, rem, f] = NaN")
  case True
  then show ?thesis by (simp add: Math_max_zero js_gt_def)
next
  case False
  then have f: "f \<noteq> NaN"
    using Math_min_NaN by auto
  with assms have fq: "js_leq f q" and q: "js_leq (Num 0) q" by auto
  from False Math_min_triple_bound [of req rem f] have "js_le (Math_min [req, rem, f]) f"
    by auto
  then have "js_leq (Math_min [req, rem, f]) q"
    using fq js_leq_trans js_le_imp_leq by blast
  then show ?thesis
    using q False by (simp add: Math_max_zero js_gt_def js_leq_not_lt)
qed

lemma requested_check_silent:
  assumes "js_leq (Num 0) req"
  shows "\<not> js_gt (Math_max [Num 0, Math_min [req, rem, f]]) req"
proof (cases "Math_min [req, rem, f] = NaN")
  case True
  then show ?thesis by (simp add: Math_max_zero js_gt_def)
next
  case False
  with Math_min_triple_bound [of req rem f] have "js_le (Math_min [req, rem, f]) req"
    by auto
  then have "js_leq (Math_min [req, rem, f]) req"
    by (rule js_le_imp_leq)
  then show ?thesis
    using assms False by (simp add: Math_max_zero js_gt_def js_leq_not_lt)
qed

lemma allocateOrder_silent:
  assumes "\<forall>c\<in>set cs. js_leq (Num 0) (creditRemaining c)"
    and "js_leq (Num 0) (pricePerUnit ord)" and "pricePerUnit ord \<noteq> NegZero"
    and "js_leq (Num 0) (requestedQty ord)"
  shows "snd (snd (allocateOrder cs ord r e)) = e"
proof (cases "findCustomer cs (customerId ord)")
  case None
  then show ?thesis by (simp add: allocateOrder_def)
next
  case (Some c)
  then have "js_leq (Num 0) (creditRemaining c)"
    using assms(1) findCustomer_in_set by blast
  from div_nonneg [OF this assms(2,3)]
  have "Math_floor (js_div (creditRemaining c) (pricePerUnit ord)) = NaN
        \<or> (js_leq (Math_floor (js_div (creditRemaining c) (pricePerUnit ord)))
                 (js_div (creditRemaining c) (pricePerUnit ord))
           \<and> js_leq (Num 0) (js_div (creditRemaining c) (pricePerUnit ord)))"
    using floor_nonneg by auto
  from credit_check_silent [OF this] requested_check_silent [OF assms(4)] Some
  show ?thesis by (simp add: allocateOrder_def Let_def)
qed

lemma allocatePass_silent:
  assumes "\<forall>c\<in>set cs. js_leq (Num 0) (creditRemaining c)"
    and "\<forall>ord\<in>set os. js_leq (Num 0) (pricePerUnit ord) \<and> pricePerUnit ord \<noteq> NegZero
           \<and> js_leq (Num 0) (requestedQty ord)"
  shows "snd (snd (allocatePass cs os r e)) = e"
  using assms(2)
proof (induction os arbitrary: r e)
  case Nil
  then show ?case by simp
next
  case (Cons ord rest)
  obtain o1 r1 e1 where 1: "allocateOrder cs ord r e = (o1, r1, e1)"
    using prod_cases3 by blast
  obtain os2 r2 e2 where 2: "allocatePass cs rest r1 e1 = (os2, r2, e2)"
    using prod_cases3 by blast
  have "e1 = e"
    using allocateOrder_silent [OF assms(1), of ord r e] Cons.prems 1 by simp
  moreover have "e2 = e1"
    using Cons.IH [of r1 e1] Cons.prems 2 by simp
  ultimately show ?case
    using 1 2 by simp
qed

subsection \<open>The automatic pass and the specification's walk\<close>

lemma div_zero_price:
  "js_lt (Num 0) c \<Longrightarrow> Math_floor (js_div c (Num 0)) = PosInf"
  by (cases c) (auto simp: js_div_def js_inf_def)

lemma allocateOrder_spec:
  assumes "findCustomer cs (customerId ord) = Some c"
  shows "fst (allocateOrder cs ord r e)
           = ord\<lparr> allocatedQty := spec_autoQty spec_maxAffordableQty c ord r,
                  total := js_mul (spec_autoQty spec_maxAffordableQty c ord r) (pricePerUnit ord) \<rparr>
         \<and> fst (snd (allocateOrder cs ord r e))
           = js_sub r (spec_autoQty spec_maxAffordableQty c ord r)"
  using assms
  by (simp add: allocateOrder_def Let_def spec_autoQty_def spec_maxAffordableQty_def)

lemma allocateOrder_missing:
  "findCustomer cs (customerId ord) = None \<Longrightarrow> allocateOrder cs ord r e = (ord, r, e)"
  by (simp add: allocateOrder_def)

lemma allocatePass_spec:
  "(fst (allocatePass cs os r e), fst (snd (allocatePass cs os r e)))
     = spec_walk spec_maxAffordableQty cs os r"
proof (induction os arbitrary: r e)
  case Nil
  then show ?case by simp
next
  case (Cons ord rest)
  obtain o1 r1 e1 where 1: "allocateOrder cs ord r e = (o1, r1, e1)"
    using prod_cases3 by blast
  obtain os2 r2 e2 where 2: "allocatePass cs rest r1 e1 = (os2, r2, e2)"
    using prod_cases3 by blast
  have ih: "spec_walk spec_maxAffordableQty cs rest r1 = (os2, r2)"
    using Cons.IH [of r1 e1] 2 by simp
  show ?case
  proof (cases "findCustomer cs (customerId ord)")
    case None
    with 1 2 ih allocateOrder_missing [OF None, of r e] show ?thesis by simp
  next
    case (Some c)
    from allocateOrder_spec [OF Some, of r e] 1 2 ih Some show ?thesis by simp
  qed
qed

lemma spec_walk_cong:
  assumes "\<forall>ord\<in>set os. \<forall>c. findCustomer cs (customerId ord) = Some c
              \<longrightarrow> f c ord = g c ord"
  shows "spec_walk f cs os r = spec_walk g cs os r"
  using assms
proof (induction os arbitrary: r)
  case Nil
  then show ?case by simp
next
  case (Cons ord rest)
  then have ih: "spec_walk f cs rest r' = spec_walk g cs rest r'" for r'
    by simp
  show ?case
  proof (cases "findCustomer cs (customerId ord)")
    case None
    with ih show ?thesis by simp
  next
    case (Some c)
    with Cons.prems have "f c ord = g c ord" by simp
    with Some ih show ?thesis by (simp add: spec_autoQty_def)
  qed
qed

lemma spec_autoAffordableQty_quotient:
  "js_seq (pricePerUnit ord) (Num 0)
     \<longrightarrow> pricePerUnit ord = Num 0 \<and> js_lt (Num 0) (creditRemaining c)
   \<Longrightarrow> spec_maxAffordableQty c ord = spec_autoAffordableQty c ord"
  by (auto simp: spec_maxAffordableQty_def spec_autoAffordableQty_def div_zero_price)

lemma js_min2_PosInf_right [simp]: "js_min2 x PosInf = x"
  by (cases x) (simp_all add: js_min2_def)

lemma Math_min_PosInf: "Math_min [a, b, PosInf] = Math_min [a, b]"
  by (simp add: Math_min_def)

lemma freeApp_doubles:
  "list_all (\<lambda>c. js_double (creditRemaining c)) (customers (state freeApp))"
  by (simp add: freeApp_def is_double_def)

section \<open>Reset\<close>

text \<open>
  C6. After \<open>resetAllocations\<close>, whatever the state before, every order has
  \<open>allocatedQty = 0\<close> and \<open>total = 0\<close> (its other fields are as before), the remaining
  stock equals the total stock, and the list of warnings is empty. The function is
  total: there is no failing branch.
\<close>

theorem resetAllocations_zeroes:
  "orders (state (resetAllocations app)) =
     map (\<lambda>order. order\<lparr>allocatedQty := Num 0, total := Num 0\<rparr>) (orders (state app))
   \<and> list_all (\<lambda>order. allocatedQty order = Num 0 \<and> total order = Num 0)
        (orders (state (resetAllocations app)))
   \<and> remainingStock (state (resetAllocations app)) = totalStock (state app)
   \<and> totalStock (state (resetAllocations app)) = totalStock (state app)
   \<and> errors (resetAllocations app) = []"
  by (simp add: resetAllocations_def Let_def list_all_iff)

section \<open>Not-found outcomes of the manual update\<close>

text \<open>
  C7. When no order has the given id, or the customer of the first order with that id
  is not among the customers, \<open>updateAllocation\<close> returns the component's state as it was:
  orders, stock figures, warnings and version counter are all unchanged.
\<close>

theorem updateAllocation_not_found:
  "findIndex (\<lambda>ord. o_id ord = orderId) (orders (state app)) = None
   \<or> (\<exists>i. findIndex (\<lambda>ord. o_id ord = orderId) (orders (state app)) = Some i
          \<and> findCustomer (customers (state app)) (customerId (orders (state app) ! i)) = None)
   \<Longrightarrow> updateAllocation app orderId newQty = app"
  by (auto simp: updateAllocation_def Let_def)

theorem updateAllocation_not_found_witness:
  "findIndex (\<lambda>ord. o_id ord = ''ORDER-404'') (orders (state initialApp)) = None
   \<and> updateAllocation initialApp ''ORDER-404'' (Num 3) = initialApp
   \<and> findIndex (\<lambda>ord. o_id ord = ''ORDER-001'') (orders (state orphanApp)) = Some 0
   \<and> findCustomer (customers (state orphanApp)) (customerId (orders (state orphanApp) ! 0)) = None
   \<and> updateAllocation orphanApp ''ORDER-001'' (Num 2) = orphanApp"
proof -
  have a: "findIndex (\<lambda>ord. o_id ord = ''ORDER-404'') (orders (state initialApp)) = None"
    by (simp add: initialApp_def)
  have b: "findIndex (\<lambda>ord. o_id ord = ''ORDER-001'') (orders (state orphanApp)) = Some 0"
    by (simp add: orphanApp_def)
  have c: "findCustomer (customers (state orphanApp)) (customerId (orders (state orphanApp) ! 0)) = None"
    by (simp add: orphanApp_def findCustomer_def)
  have "updateAllocation initialApp ''ORDER-404'' (Num 3) = initialApp"
    by (rule updateAllocation_not_found) (simp add: a)
  moreover have "updateAllocation orphanApp ''ORDER-001'' (Num 2) = orphanApp"
    by (rule updateAllocation_not_found) (simp add: b c)
  ultimately show ?thesis using a b c by simp
qed

section \<open>The clamp of the manual update\<close>

text \<open>
  C1. When the order with the given id and its customer exist, \<open>updateAllocation\<close> sets
  that order's \<open>allocatedQty\<close> to the desired quantity clamped between \<open>0\<close> and the minimum
  of \<open>requestedQty\<close>, \<open>maxAffordableQty = floor (creditRemaining / pricePerUnit)\<close> and
  \<open>maxAvailableQty = totalStock -\<close> the allocations of the orders with another id, and
  sets \<open>total\<close> to that quantity times \<open>pricePerUnit\<close>. The clamp is the minimum of the
  upper bound and the maximum of \<open>0\<close> and the desired quantity; whenever \<open>0\<close> is at most
  the upper bound this is also the clamp by cases. When the order ids are distinct, the
  orders with another id are all orders at another position of the list.
\<close>

theorem updateAllocation_clamp:
  assumes "findIndex (\<lambda>ord. o_id ord = orderId) (orders (state app)) = Some i"
    and "findCustomer (customers (state app)) (customerId (orders (state app) ! i)) = Some customer"
  shows "(let order = orders (state app) ! i;
              upper = Math_min [requestedQty order, spec_maxAffordableQty customer order,
                                spec_maxAvailableQty (state app) orderId];
              order' = orders (state (updateAllocation app orderId newQty)) ! i
          in allocatedQty order' = spec_clamp newQty (Num 0) upper
             \<and> total order' = js_mul (spec_clamp newQty (Num 0) upper) (pricePerUnit order)
             \<and> (js_le (Num 0) upper \<longrightarrow>
                  allocatedQty order' = spec_clamp_cases newQty (Num 0) upper)
             \<and> (distinct (map o_id (orders (state app))) \<longrightarrow>
                  spec_maxAvailableQty (state app) orderId
                    = js_sub (totalStock (state app))
                        (allocatedSum (take i (orders (state app))
                                       @ drop (Suc i) (orders (state app))))))"
proof -
  have i: "i < length (orders (state app))" and oid: "o_id (orders (state app) ! i) = orderId"
    using findIndex_Some [OF assms(1)] by simp_all
  have others: "filter (\<lambda>x. o_id x \<noteq> orderId) (orders (state app))
                  = take i (orders (state app)) @ drop (Suc i) (orders (state app))"
    if "distinct (map o_id (orders (state app)))"
    using filter_other_ids [OF that i] oid by simp
  have "allocatedQty (orders (state (updateAllocation app orderId newQty)) ! i)
          = spec_clamp newQty (Num 0)
              (Math_min [requestedQty (orders (state app) ! i),
                         spec_maxAffordableQty customer (orders (state app) ! i),
                         spec_maxAvailableQty (state app) orderId])
        \<and> total (orders (state (updateAllocation app orderId newQty)) ! i)
          = js_mul (spec_clamp newQty (Num 0)
              (Math_min [requestedQty (orders (state app) ! i),
                         spec_maxAffordableQty customer (orders (state app) ! i),
                         spec_maxAvailableQty (state app) orderId]))
              (pricePerUnit (orders (state app) ! i))"
    using assms i
    by (simp add: updateAllocation_def Let_def spec_clamp_def spec_maxAffordableQty_def
          spec_maxAvailableQty_def allocatedExcept_filter Math_min_quad Math_max_pair)
  then show ?thesis
    using others by (simp add: Let_def spec_clamp_cases_eq spec_maxAvailableQty_def)
qed

theorem updateAllocation_clamp_witness:
  "findIndex (\<lambda>ord. o_id ord = ''ORDER-001'') (orders (state initialApp)) = Some 0
   \<and> findCustomer (customers (state initialApp)) (customerId (orders (state initialApp) ! 0))
       = Some (hd (customers (state initialApp)))
   \<and> Math_min [requestedQty (orders (state initialApp) ! 0),
                spec_maxAffordableQty (hd (customers (state initialApp))) (orders (state initialApp) ! 0),
                spec_maxAvailableQty (state initialApp) ''ORDER-001''] = Num 5
   \<and> js_le (Num 0) (Num 5)
   \<and> distinct (map o_id (orders (state initialApp)))
   \<and> allocatedQty (orders (state (updateAllocation initialApp ''ORDER-001'' (Num 7))) ! 0) = Num 5
   \<and> total (orders (state (updateAllocation initialApp ''ORDER-001'' (Num 7))) ! 0) = Num (10315 / 4)"
proof -
  have a: "findIndex (\<lambda>ord. o_id ord = ''ORDER-001'') (orders (state initialApp)) = Some 0"
    by (simp add: initialApp_def twoOrdersApp_def updateAllocation_def js_eval)
  have b: "findCustomer (customers (state initialApp)) (customerId (orders (state initialApp) ! 0))
       = Some (hd (customers (state initialApp)))"
    by (simp add: initialApp_def twoOrdersApp_def updateAllocation_def js_eval)
  have u: "Math_min [requestedQty (orders (state initialApp) ! 0),
                spec_maxAffordableQty (hd (customers (state initialApp))) (orders (state initialApp) ! 0),
                spec_maxAvailableQty (state initialApp) ''ORDER-001''] = Num 5"
    by (simp add: initialApp_def twoOrdersApp_def updateAllocation_def js_eval)
  have c: "spec_clamp (Num 7) (Num 0) (Num 5) = Num 5"
    by (simp add: initialApp_def twoOrdersApp_def updateAllocation_def js_eval)
  have p: "js_mul (Num 5) (pricePerUnit (orders (state initialApp) ! 0)) = Num (10315 / 4)"
    by (simp add: initialApp_def twoOrdersApp_def updateAllocation_def js_eval)
  have z: "js_le (Num 0) (Num 5)"
    by simp
  have d: "distinct (map o_id (orders (state initialApp)))"
    by (simp add: initialApp_def)
  from updateAllocation_clamp [OF a b, of "Num 7"] show ?thesis
    unfolding Let_def u c p using a b u z d by simp
qed

section \<open>The diagnostic of the manual update\<close>

text \<open>
  C5. When the order and its customer exist, the warnings after \<open>updateAllocation\<close> are
  determined by the quantity it stored. The classification runs exactly when that
  quantity is below the desired one: the customer-credit message if the quantity equals
  \<open>maxAffordableQty\<close>, otherwise the stock message if it equals \<open>maxAvailableQty\<close>,
  otherwise (for example when \<open>requestedQty\<close> was the binding bound) no message. So a
  message is never emitted unless the request was clipped.
\<close>

theorem updateAllocation_diagnostic:
  assumes "findIndex (\<lambda>ord. o_id ord = orderId) (orders (state app)) = Some i"
    and "findCustomer (customers (state app)) (customerId (orders (state app) ! i)) = Some customer"
  shows "(let constrainedQty = allocatedQty (orders (state (updateAllocation app orderId newQty)) ! i)
          in errors (updateAllocation app orderId newQty) =
               (if js_lt constrainedQty newQty then
                  (if js_seq constrainedQty (spec_maxAffordableQty customer (orders (state app) ! i))
                   then [''Order '' @ orderId @ '': Limited by customer credit'']
                   else if js_seq constrainedQty (spec_maxAvailableQty (state app) orderId)
                   then [''Order '' @ orderId @ '': Limited by available stock'']
                   else [])
                else [])
             \<and> (errors (updateAllocation app orderId newQty) \<noteq> []
                  \<longrightarrow> js_lt constrainedQty newQty))"
proof -
  have i: "i < length (orders (state app))"
    using findIndex_Some [OF assms(1)] by simp
  show ?thesis
    using assms i
    by (simp add: updateAllocation_def Let_def spec_maxAffordableQty_def
          spec_maxAvailableQty_def allocatedExcept_filter)
qed

theorem updateAllocation_diagnostic_witness:
  "findIndex (\<lambda>ord. o_id ord = ''ORDER-001'') (orders (state initialApp)) = Some 0
   \<and> findCustomer (customers (state initialApp)) (customerId (orders (state initialApp) ! 0))
       = Some (hd (customers (state initialApp)))
   \<and> errors (updateAllocation initialApp ''ORDER-001'' (Num 7))
       = [''Order ORDER-001: Limited by customer credit'']
   \<and> findIndex (\<lambda>ord. o_id ord = ''ORDER-002'') (orders (state twoOrdersApp)) = Some 1
   \<and> findCustomer (customers (state twoOrdersApp)) (customerId (orders (state twoOrdersApp) ! 1))
       = Some (hd (customers (state twoOrdersApp)))
   \<and> errors (updateAllocation twoOrdersApp ''ORDER-002'' (Num 5))
       = [''Order ORDER-002: Limited by available stock'']"
proof -
  have a: "findIndex (\<lambda>ord. o_id ord = ''ORDER-001'') (orders (state initialApp)) = Some 0"
    by (simp add: initialApp_def twoOrdersApp_def updateAllocation_def js_eval)
  have b: "findCustomer (customers (state initialApp)) (customerId (orders (state initialApp) ! 0))
       = Some (hd (customers (state initialApp)))"
    by (simp add: initialApp_def twoOrdersApp_def updateAllocation_def js_eval)
  have q: "allocatedQty (orders (state (updateAllocation initialApp ''ORDER-001'' (Num 7))) ! 0) = Num 5"
    by (simp add: initialApp_def twoOrdersApp_def updateAllocation_def js_eval)
  have m: "spec_maxAffordableQty (hd (customers (state initialApp))) (orders (state initialApp) ! 0) = Num 5"
    by (simp add: initialApp_def twoOrdersApp_def updateAllocation_def js_eval)
  have a2: "findIndex (\<lambda>ord. o_id ord = ''ORDER-002'') (orders (state twoOrdersApp)) = Some 1"
    by (simp add: initialApp_def twoOrdersApp_def updateAllocation_def js_eval)
  have b2: "findCustomer (customers (state twoOrdersApp)) (customerId (orders (state twoOrdersApp) ! 1))
       = Some (hd (customers (state twoOrdersApp)))"
    by (simp add: initialApp_def twoOrdersApp_def updateAllocation_def js_eval)
  have q2: "allocatedQty (orders (state (updateAllocation twoOrdersApp ''ORDER-002'' (Num 5))) ! 1) = Num 2"
    by (simp add: initialApp_def twoOrdersApp_def updateAllocation_def js_eval)
  have m2: "spec_maxAffordableQty (hd (customers (state twoOrdersApp))) (orders (state twoOrdersApp) ! 1) = Num 3000"
    by (simp add: initialApp_def twoOrdersApp_def updateAllocation_def js_eval)
  have v2: "spec_maxAvailableQty (state twoOrdersApp) ''ORDER-002'' = Num 2"
    by (simp add: initialApp_def twoOrdersApp_def updateAllocation_def js_eval)
  have e1: "errors (updateAllocation initialApp ''ORDER-001'' (Num 7))
       = [''Order ORDER-001: Limited by customer credit'']"
    using updateAllocation_diagnostic [OF a b, of "Num 7"]
    unfolding Let_def q m by (simp add: js_seq_def)
  have e2: "errors (updateAllocation twoOrdersApp ''ORDER-002'' (Num 5))
       = [''Order ORDER-002: Limited by available stock'']"
    using updateAllocation_diagnostic [OF a2 b2, of "Num 5"]
    unfolding Let_def q2 m2 v2 by (simp add: js_seq_def)
  from a b e1 a2 b2 e2 show ?thesis by simp
qed

text \<open>A request clipped by \<open>requestedQty\<close> alone: 9 asked, 8 stored, no message.\<close>

lemma updateAllocation_requested_cap_silent:
  "allocatedQty (orders (state (updateAllocation twoOrdersApp ''ORDER-001'' (Num 9))) ! 0) = Num 8
   \<and> errors (updateAllocation twoOrdersApp ''ORDER-001'' (Num 9)) = []"
  by (simp add: initialApp_def twoOrdersApp_def updateAllocation_def js_eval)

section \<open>The version counter\<close>

text \<open>
  C8 (as amended). \<open>runAutoAssignment\<close>, \<open>resetAllocations\<close> and an \<open>updateAllocation\<close> that
  finds its order and the order's customer each add exactly one to \<open>versionKey\<close>;
  \<open>saveAllocations\<close> changes nothing at all.
\<close>

theorem versionKey_increments:
  "versionKey (runAutoAssignment app) = versionKey app + 1
   \<and> versionKey (resetAllocations app) = versionKey app + 1
   \<and> (findIndex (\<lambda>ord. o_id ord = orderId) (orders (state app)) = Some i
        \<and> findCustomer (customers (state app)) (customerId (orders (state app) ! i)) = Some c
       \<longrightarrow> versionKey (updateAllocation app orderId newQty) = versionKey app + 1)
   \<and> fst (saveAllocations app) = app"
  by (simp add: runAutoAssignment_def resetAllocations_def updateAllocation_def
        saveAllocations_def Let_def split: prod.splits)

theorem versionKey_increments_witness:
  "versionKey (runAutoAssignment initialApp) = 2
   \<and> versionKey (resetAllocations initialApp) = 2
   \<and> findIndex (\<lambda>ord. o_id ord = ''ORDER-001'') (orders (state initialApp)) = Some 0
   \<and> findCustomer (customers (state initialApp)) (customerId (orders (state initialApp) ! 0))
       = Some (hd (customers (state initialApp)))
   \<and> versionKey (updateAllocation initialApp ''ORDER-001'' (Num 7)) = 2
   \<and> fst (saveAllocations initialApp) = initialApp"
proof -
  have a: "findIndex (\<lambda>ord. o_id ord = ''ORDER-001'') (orders (state initialApp)) = Some 0"
    by (simp add: initialApp_def twoOrdersApp_def updateAllocation_def js_eval)
  have b: "findCustomer (customers (state initialApp)) (customerId (orders (state initialApp) ! 0))
       = Some (hd (customers (state initialApp)))"
    by (simp add: initialApp_def twoOrdersApp_def updateAllocation_def js_eval)
  have v: "versionKey initialApp = 1"
    by (simp add: initialApp_def)
  from versionKey_increments [of initialApp "''ORDER-001''" 0 "hd (customers (state initialApp))" "Num 7"]
  show ?thesis using a b v by simp
qed

text \<open>
  The claim as stated fails for the two handlers that never touch the counter: after
  \<open>saveAllocations\<close> and after \<open>addNewOrder\<close> the counter is what it was.
\<close>

theorem versionKey_save_add_counterexample:
  "versionKey (fst (saveAllocations initialApp)) \<noteq> versionKey initialApp + 1
   \<and> versionKey (addNewOrder initialApp) \<noteq> versionKey initialApp + 1"
  by (simp add: saveAllocations_def addNewOrder_def)

section \<open>Priority order\<close>

text \<open>
  C4. Take any state whose credits are binary64 values, as every number of the program
  is. Then a priority order of the stored orders exists: a permutation that is descending
  in the credit of the referenced customer and in which orders of equal credit keep the
  sequence of the input. \<open>runAutoAssignment\<close> processes exactly that list: for every list
  with these three properties (there is only one), the allocation pass over it, started
  with \<open>totalStock\<close> and no warnings, yields the orders, the remaining stock and the
  warnings that \<open>runAutoAssignment\<close> returns. The credit compared is the customer's
  \<open>creditRemaining\<close>, with \<open>NaN\<close> and negative zero read as \<open>0\<close>.
\<close>

theorem runAutoAssignment_priority_order:
  assumes "list_all (\<lambda>c. js_double (creditRemaining c)) (customers (state app))"
  shows "(\<exists>ps. spec_priorityOrder (customers (state app)) (orders (state app)) ps)
         \<and> (\<forall>ps. spec_priorityOrder (customers (state app)) (orders (state app)) ps \<longrightarrow>
                allocatePass (customers (state app)) ps (totalStock (state app)) []
                  = (orders (state (runAutoAssignment app)),
                     remainingStock (state (runAutoAssignment app)),
                     errors (runAutoAssignment app)))
         \<and> (\<forall>(ord :: Order) c.
                findCustomer (customers (state app)) (customerId ord) = Some c \<longrightarrow>
                creditOrZero (customers (state app)) ord
                  = (if creditRemaining c = NaN \<or> creditRemaining c = NegZero then Num 0
                     else creditRemaining c))"
proof (intro conjI allI impI)
  show "\<exists>ps. spec_priorityOrder (customers (state app)) (orders (state app)) ps"
    using Array_sort_priorityOrder [OF assms] by blast
next
  fix ps
  assume "spec_priorityOrder (customers (state app)) (orders (state app)) ps"
  then have "ps = Array_sort (compareOrders (customers (state app))) (orders (state app))"
    by (rule priorityOrder_unique [OF assms])
  then show "allocatePass (customers (state app)) ps (totalStock (state app)) []
                  = (orders (state (runAutoAssignment app)),
                     remainingStock (state (runAutoAssignment app)),
                     errors (runAutoAssignment app))"
    by (simp add: runAutoAssignment_pass)
next
  fix ord :: Order and c
  assume "findCustomer (customers (state app)) (customerId ord) = Some c"
  then show "creditOrZero (customers (state app)) ord
                  = (if creditRemaining c = NaN \<or> creditRemaining c = NegZero then Num 0
                     else creditRemaining c)"
    by (rule creditOrZero_found)
qed

theorem runAutoAssignment_priority_order_witness:
  "list_all (\<lambda>c. js_double (creditRemaining c)) (customers (state tieApp))
   \<and> spec_priorityOrder (customers (state tieApp)) (orders (state tieApp))
        (map (\<lambda>i. orders (state tieApp) ! i) [1, 3, 0, 2])
   \<and> map o_id (orders (state tieApp)) = [''A'', ''B'', ''C'', ''D'']
   \<and> map (creditOrZero (customers (state tieApp))) (orders (state tieApp))
       = [Num 100, Num 500, Num 100, Num 500]
   \<and> map o_id (orders (state (runAutoAssignment tieApp))) = [''B'', ''D'', ''A'', ''C'']
   \<and> map allocatedQty (orders (state (runAutoAssignment tieApp))) = [Num 4, Num 4, Num 2, Num 0]
   \<and> remainingStock (state (runAutoAssignment tieApp)) = Num 0"
proof -
  have p: "spec_priorityOrder (customers (state tieApp)) (orders (state tieApp))
        (map (\<lambda>i. orders (state tieApp) ! i) [1, 3, 0, 2])"
    using Array_sort_priorityOrder [OF tieApp_doubles, of "orders (state tieApp)"]
    by (simp only: tieApp_sorted)
  have ids: "map o_id (orders (state tieApp)) = [''A'', ''B'', ''C'', ''D'']"
    by (simp add: tieApp_def)
  have keys: "map (creditOrZero (customers (state tieApp))) (orders (state tieApp))
       = [Num 100, Num 500, Num 100, Num 500]"
    by (simp add: tieApp_def js_eval)
  from runAutoAssignment_priority_order [OF tieApp_doubles] p
  have "allocatePass (customers (state tieApp)) (map (\<lambda>i. orders (state tieApp) ! i) [1, 3, 0, 2])
          (totalStock (state tieApp)) []
        = (orders (state (runAutoAssignment tieApp)),
           remainingStock (state (runAutoAssignment tieApp)), errors (runAutoAssignment tieApp))"
    by blast
  then have r: "orders (state (runAutoAssignment tieApp))
        = map (\<lambda>(i, q). (orders (state tieApp) ! i)\<lparr>allocatedQty := Num q, total := Num (q * 10)\<rparr>)
            [(1, 4), (3, 4), (0, 2), (2, 0)]"
      and s: "remainingStock (state (runAutoAssignment tieApp)) = Num 0"
    by (simp_all only: tieApp_pass prod.inject)
  have "map o_id (orders (state (runAutoAssignment tieApp))) = [''B'', ''D'', ''A'', ''C'']"
    unfolding r by (simp add: tieApp_def)
  moreover have "map allocatedQty (orders (state (runAutoAssignment tieApp)))
                 = [Num 4, Num 4, Num 2, Num 0]"
    unfolding r by (simp add: tieApp_def)
  ultimately show ?thesis
    using tieApp_doubles p ids keys s by simp
qed

section \<open>The stored order list after auto-assignment\<close>

text \<open>
  C10. Take any state whose credits are binary64 values. Allocation fields apart, the
  order list that \<open>runAutoAssignment\<close> stores is a permutation of the input list, descending
  in the customers' credit, with the orders of equal credit in their input sequence. It is
  the input sequence exactly when the input was already descending. The customers are
  unchanged, and any sequence of later manual updates, resets and order creations keeps
  the stored sequence as the beginning of the order list.
\<close>

theorem runAutoAssignment_stores_priority_order:
  assumes "list_all (\<lambda>c. js_double (creditRemaining c)) (customers (state app))"
  shows "spec_priorityOrder (customers (state app))
           (map stripAllocation (orders (state app)))
           (map stripAllocation (orders (state (runAutoAssignment app))))
         \<and> customers (state (runAutoAssignment app)) = customers (state app)
         \<and> ((map stripAllocation (orders (state (runAutoAssignment app)))
               = map stripAllocation (orders (state app)))
            = sorted_wrt (\<lambda>a b. js_leq (creditOrZero (customers (state app)) b)
                                       (creditOrZero (customers (state app)) a))
                (orders (state app)))
         \<and> (\<forall>opers. AutoAssign \<notin> set opers \<longrightarrow>
               take (length (orders (state app)))
                 (map stripAllocation (orders (state (foldl perform (runAutoAssignment app) opers))))
               = map stripAllocation (orders (state (runAutoAssignment app))))"
proof -
  let ?cs = "customers (state app)" and ?os = "orders (state app)"
  let ?R = "\<lambda>a b. js_leq (creditOrZero ?cs b) (creditOrZero ?cs a)"
  have p: "spec_priorityOrder ?cs ?os (Array_sort (compareOrders ?cs) ?os)"
    by (rule Array_sort_priorityOrder [OF assms])
  have 1: "spec_priorityOrder ?cs (map stripAllocation ?os)
             (map stripAllocation (orders (state (runAutoAssignment app))))"
    using priorityOrder_strip [OF p] by (simp add: runAutoAssignment_strip)
  have 3: "(map stripAllocation (orders (state (runAutoAssignment app))) = map stripAllocation ?os)
           = sorted_wrt ?R ?os"
  proof
    assume "map stripAllocation (orders (state (runAutoAssignment app))) = map stripAllocation ?os"
    with 1 have "sorted_wrt ?R (map stripAllocation ?os)"
      by (simp add: spec_priorityOrder_def)
    then show "sorted_wrt ?R ?os" by (simp add: sorted_wrt_map)
  next
    assume "sorted_wrt ?R ?os"
    then have "?os = Array_sort (compareOrders ?cs) ?os"
      by (intro priorityOrder_unique [OF assms] priorityOrder_refl)
    then show "map stripAllocation (orders (state (runAutoAssignment app))) = map stripAllocation ?os"
      by (simp add: runAutoAssignment_strip)
  qed
  have 4: "take (length ?os)
             (map stripAllocation (orders (state (foldl perform (runAutoAssignment app) opers))))
           = map stripAllocation (orders (state (runAutoAssignment app)))"
    if "AutoAssign \<notin> set opers" for opers
    using foldl_perform_keeps [OF that, of "runAutoAssignment app"]
    by (simp add: length_runAutoAssignment)
  from 1 3 4 show ?thesis by simp
qed

theorem runAutoAssignment_stores_priority_order_witness:
  "list_all (\<lambda>c. js_double (creditRemaining c)) (customers (state tieApp))
   \<and> map o_id (orders (state tieApp)) = [''A'', ''B'', ''C'', ''D'']
   \<and> \<not> sorted_wrt (\<lambda>a b. js_leq (creditOrZero (customers (state tieApp)) b)
                              (creditOrZero (customers (state tieApp)) a))
         (orders (state tieApp))
   \<and> map stripAllocation (orders (state (runAutoAssignment tieApp)))
       = map (\<lambda>i. stripAllocation (orders (state tieApp) ! i)) [1, 3, 0, 2]
   \<and> map stripAllocation (orders (state (runAutoAssignment tieApp)))
       \<noteq> map stripAllocation (orders (state tieApp))
   \<and> AutoAssign \<notin> set [Update ''A'' (Num 1), Reset, AddOrder]
   \<and> take 4 (map stripAllocation
                (orders (state (foldl perform (runAutoAssignment tieApp)
                                  [Update ''A'' (Num 1), Reset, AddOrder]))))
       = map (\<lambda>i. stripAllocation (orders (state tieApp) ! i)) [1, 3, 0, 2]"
proof -
  let ?r = "runAutoAssignment tieApp"
  let ?opers = "[Update ''A'' (Num 1), Reset, AddOrder]"
  note t = runAutoAssignment_stores_priority_order [OF tieApp_doubles]
  have ids: "map o_id (orders (state tieApp)) = [''A'', ''B'', ''C'', ''D'']"
    by (simp add: tieApp_def)
  have ns: "\<not> sorted_wrt (\<lambda>a b. js_leq (creditOrZero (customers (state tieApp)) b)
                              (creditOrZero (customers (state tieApp)) a))
         (orders (state tieApp))"
    by (simp add: tieApp_def js_eval)
  have ne: "map stripAllocation (orders (state ?r)) \<noteq> map stripAllocation (orders (state tieApp))"
    using t ns by blast
  have po: "spec_priorityOrder (customers (state tieApp))
              (map stripAllocation (orders (state tieApp)))
              (map stripAllocation (orders (state ?r)))"
    using t by blast
  have "map stripAllocation (orders (state ?r))
        = Array_sort (compareOrders (customers (state tieApp)))
            (map stripAllocation (orders (state tieApp)))"
    using po by (rule priorityOrder_unique [OF tieApp_doubles])
  also have "\<dots> = map (\<lambda>i. stripAllocation (orders (state tieApp) ! i)) [1, 3, 0, 2]"
    by (simp add: tieApp_def stripAllocation_def js_eval)
  finally have st: "map stripAllocation (orders (state ?r))
       = map (\<lambda>i. stripAllocation (orders (state tieApp) ! i)) [1, 3, 0, 2]" .
  have a: "AutoAssign \<notin> set ?opers" by simp
  have n: "length (orders (state tieApp)) = 4"
    by (simp add: tieApp_def)
  from t a have "take (length (orders (state tieApp)))
                   (map stripAllocation (orders (state (foldl perform ?r ?opers))))
                 = map stripAllocation (orders (state ?r))"
    by blast
  then have k: "take 4 (map stripAllocation (orders (state (foldl perform ?r ?opers))))
             = map (\<lambda>i. stripAllocation (orders (state tieApp) ! i)) [1, 3, 0, 2]"
    unfolding n st .
  from tieApp_doubles ids ns st ne a k show ?thesis
    by (intro conjI)
qed

section \<open>The violation checks of the automatic pass\<close>

text \<open>
  C9 (as amended). If every customer's \<open>creditRemaining\<close> and every order's \<open>pricePerUnit\<close>
  and \<open>requestedQty\<close> are \<open>>= 0\<close> in the sense of the source language, and no price is
  negative zero, neither violation check of \<open>runAutoAssignment\<close> fires: the list of warnings
  it returns is empty.
\<close>

theorem runAutoAssignment_no_violations:
  assumes "\<forall>c\<in>set (customers (state app)). js_leq (Num 0) (creditRemaining c)"
    and "\<forall>ord\<in>set (orders (state app)).
           js_leq (Num 0) (pricePerUnit ord) \<and> pricePerUnit ord \<noteq> NegZero
           \<and> js_leq (Num 0) (requestedQty ord)"
  shows "errors (runAutoAssignment app) = []"
proof -
  obtain os' r' e' where p: "allocatePass (customers (state app))
          (Array_sort (compareOrders (customers (state app))) (orders (state app)))
          (totalStock (state app)) [] = (os', r', e')"
    using prod_cases3 by blast
  have "snd (snd (allocatePass (customers (state app))
          (Array_sort (compareOrders (customers (state app))) (orders (state app)))
          (totalStock (state app)) [])) = []"
    by (rule allocatePass_silent [OF assms(1)]) (simp add: set_Array_sort assms(2))
  with p show ?thesis
    by (simp add: runAutoAssignment_def)
qed

theorem runAutoAssignment_no_violations_witness:
  "(\<forall>c\<in>set (customers (state initialApp)). js_leq (Num 0) (creditRemaining c)) = True
   \<and> (\<forall>ord\<in>set (orders (state initialApp)).
           js_leq (Num 0) (pricePerUnit ord) \<and> pricePerUnit ord \<noteq> NegZero
           \<and> js_leq (Num 0) (requestedQty ord)) = True
   \<and> errors (runAutoAssignment initialApp) = []"
proof -
  have a: "\<forall>c\<in>set (customers (state initialApp)). js_leq (Num 0) (creditRemaining c)"
    by (simp add: initialApp_def js_leq_def)
  have b: "\<forall>ord\<in>set (orders (state initialApp)).
           js_leq (Num 0) (pricePerUnit ord) \<and> pricePerUnit ord \<noteq> NegZero
           \<and> js_leq (Num 0) (requestedQty ord)"
    by (simp add: initialApp_def js_leq_def)
  from runAutoAssignment_no_violations [OF a b] a b show ?thesis by simp
qed

text \<open>
  Negative zero is \<open>>= 0\<close> too. With a price of negative zero and a credit of 3000 the
  quotient is \<open>-\<infinity>\<close>, the order is given \<open>0\<close>, and the first check fires because \<open>0 > -\<infinity>\<close>.
\<close>

theorem negative_zero_price_violation_counterexample:
  "list_all (\<lambda>c. js_leq (Num 0) (creditRemaining c)) (customers (state negZeroPriceApp))
   \<and> list_all (\<lambda>ord. js_leq (Num 0) (pricePerUnit ord) \<and> js_leq (Num 0) (requestedQty ord))
        (orders (state negZeroPriceApp))
   \<and> errors (runAutoAssignment negZeroPriceApp)
       = [''Order ORDER-001: Exceeds customer credit limit'']"
  by (simp add: negZeroPriceApp_def runAutoAssignment_def js_eval js_div_def js_mul_def
        js_sub_def js_add_def)

section \<open>The automatic pass\<close>

text \<open>
  C2 (as amended). Take any state whose credits are binary64 values, and the priority
  order \<open>ps\<close> of its orders. \<open>runAutoAssignment\<close> walks \<open>ps\<close> with a running remaining stock
  that starts at \<open>totalStock\<close>. An order whose customer is found gets
  \<open>allocatedQty = max(0, min(requestedQty, remainingStock, maxAffordableQty))\<close> with
  \<open>maxAffordableQty = floor (creditRemaining / pricePerUnit)\<close>, and
  \<open>total = allocatedQty * pricePerUnit\<close>, and the remaining stock goes down by
  \<open>allocatedQty\<close>; an order whose customer is not found is left as it is. Where each order
  of a known customer with a price equal to zero has a price of positive zero and a credit
  above zero, the quotient at that price is infinite: the pass is the one with unbounded
  affordability, whose allocation at a price of zero is bounded by \<open>requestedQty\<close> and the
  remaining stock alone.
\<close>

theorem runAutoAssignment_walk:
  assumes "list_all (\<lambda>c. js_double (creditRemaining c)) (customers (state app))"
    and "spec_priorityOrder (customers (state app)) (orders (state app)) ps"
  shows "(orders (state (runAutoAssignment app)), remainingStock (state (runAutoAssignment app)))
           = spec_walk spec_maxAffordableQty (customers (state app)) ps (totalStock (state app))
         \<and> ((\<forall>ord\<in>set (orders (state app)). \<forall>c.
                findCustomer (customers (state app)) (customerId ord) = Some c
                \<and> js_seq (pricePerUnit ord) (Num 0)
                \<longrightarrow> pricePerUnit ord = Num 0 \<and> js_lt (Num 0) (creditRemaining c))
             \<longrightarrow> (orders (state (runAutoAssignment app)),
                  remainingStock (state (runAutoAssignment app)))
                   = spec_walk spec_autoAffordableQty (customers (state app)) ps
                       (totalStock (state app)))
         \<and> (\<forall>c ord r. js_seq (pricePerUnit ord) (Num 0) \<longrightarrow>
               spec_autoQty spec_autoAffordableQty c ord r
                 = Math_max [Num 0, Math_min [requestedQty ord, r]])"
proof -
  let ?cs = "customers (state app)"
  have ps: "ps = Array_sort (compareOrders ?cs) (orders (state app))"
    using assms by (rule priorityOrder_unique)
  obtain os' r' e' where p: "allocatePass ?cs ps (totalStock (state app)) [] = (os', r', e')"
    using prod_cases3 by blast
  have 1: "(orders (state (runAutoAssignment app)), remainingStock (state (runAutoAssignment app)))
             = spec_walk spec_maxAffordableQty ?cs ps (totalStock (state app))"
    using allocatePass_spec [of ?cs ps "totalStock (state app)" "[]"] p
    unfolding ps by (simp add: runAutoAssignment_def)
  have 2: "spec_walk spec_maxAffordableQty ?cs ps (totalStock (state app))
             = spec_walk spec_autoAffordableQty ?cs ps (totalStock (state app))"
    if h: "\<forall>ord\<in>set (orders (state app)). \<forall>c.
          findCustomer ?cs (customerId ord) = Some c \<and> js_seq (pricePerUnit ord) (Num 0)
          \<longrightarrow> pricePerUnit ord = Num 0 \<and> js_lt (Num 0) (creditRemaining c)"
  proof (rule spec_walk_cong, intro ballI allI impI)
    fix ord c
    assume "ord \<in> set ps" and "findCustomer ?cs (customerId ord) = Some c"
    with h have "js_seq (pricePerUnit ord) (Num 0)
                 \<longrightarrow> pricePerUnit ord = Num 0 \<and> js_lt (Num 0) (creditRemaining c)"
      unfolding ps by (simp add: set_Array_sort)
    then show "spec_maxAffordableQty c ord = spec_autoAffordableQty c ord"
      by (rule spec_autoAffordableQty_quotient)
  qed
  have 3: "spec_autoQty spec_autoAffordableQty c ord r
             = Math_max [Num 0, Math_min [requestedQty ord, r]]"
    if "js_seq (pricePerUnit ord) (Num 0)" for c and ord :: Order and r
    using that by (simp add: spec_autoQty_def spec_autoAffordableQty_def Math_min_PosInf)
  from 1 2 3 show ?thesis by simp
qed

theorem runAutoAssignment_walk_witness:
  "list_all (\<lambda>c. js_double (creditRemaining c)) (customers (state freeApp))
   \<and> spec_priorityOrder (customers (state freeApp)) (orders (state freeApp))
        (orders (state freeApp))
   \<and> (\<forall>ord\<in>set (orders (state freeApp)). \<forall>c.
             findCustomer (customers (state freeApp)) (customerId ord) = Some c
             \<and> js_seq (pricePerUnit ord) (Num 0)
             \<longrightarrow> pricePerUnit ord = Num 0 \<and> js_lt (Num 0) (creditRemaining c)) = True
   \<and> js_seq (pricePerUnit (hd (orders (state freeApp)))) (Num 0)
   \<and> map allocatedQty (orders (state (runAutoAssignment freeApp))) = [Num 5]
   \<and> map total (orders (state (runAutoAssignment freeApp))) = [Num 0]
   \<and> remainingStock (state (runAutoAssignment freeApp)) = Num 5"
proof -
  have po: "spec_priorityOrder (customers (state freeApp)) (orders (state freeApp))
        (orders (state freeApp))"
    by (rule priorityOrder_refl) (simp add: freeApp_def)
  have h: "\<forall>ord\<in>set (orders (state freeApp)). \<forall>c.
             findCustomer (customers (state freeApp)) (customerId ord) = Some c
             \<and> js_seq (pricePerUnit ord) (Num 0)
             \<longrightarrow> pricePerUnit ord = Num 0 \<and> js_lt (Num 0) (creditRemaining c)"
    by (simp add: freeApp_def findCustomer_def)
  have z: "js_seq (pricePerUnit (hd (orders (state freeApp)))) (Num 0)"
    by (simp add: freeApp_def js_seq_def)
  have w: "spec_walk spec_autoAffordableQty (customers (state freeApp)) (orders (state freeApp))
             (totalStock (state freeApp))
             = ([hd (orders (state freeApp))\<lparr>allocatedQty := Num 5, total := Num 0\<rparr>], Num 5)"
    by (simp add: freeApp_def spec_autoQty_def spec_autoAffordableQty_def js_eval)
  from runAutoAssignment_walk [OF freeApp_doubles po] h have
    "(orders (state (runAutoAssignment freeApp)), remainingStock (state (runAutoAssignment freeApp)))
       = spec_walk spec_autoAffordableQty (customers (state freeApp)) (orders (state freeApp))
           (totalStock (state freeApp))"
    by blast
  then have
    "(orders (state (runAutoAssignment freeApp)), remainingStock (state (runAutoAssignment freeApp)))
       = ([hd (orders (state freeApp))\<lparr>allocatedQty := Num 5, total := Num 0\<rparr>], Num 5)"
    unfolding w .
  with freeApp_doubles po h z show ?thesis by simp
qed

text \<open>
  With a price of zero and a credit of zero the quotient is \<open>NaN\<close>: the order is not
  given \<open>min(requestedQty, remainingStock) = 5\<close> but \<open>NaN\<close>, and the remaining stock
  becomes \<open>NaN\<close> too. With a price of negative zero and a credit of 3000 the quotient is
  \<open>-\<infinity>\<close>, and the order is given \<open>0\<close>.
\<close>

theorem zero_price_counterexample:
  "pricePerUnit (hd (orders (state zeroPriceApp))) = Num 0
   \<and> Math_max [Num 0, Math_min [requestedQty (hd (orders (state zeroPriceApp))),
                                 totalStock (state zeroPriceApp)]] = Num 5
   \<and> allocatedQty (hd (orders (state (runAutoAssignment zeroPriceApp)))) = NaN
   \<and> remainingStock (state (runAutoAssignment zeroPriceApp)) = NaN
   \<and> js_seq (pricePerUnit (hd (orders (state negZeroPriceApp)))) (Num 0)
   \<and> Math_max [Num 0, Math_min [requestedQty (hd (orders (state negZeroPriceApp))),
                                 totalStock (state negZeroPriceApp)]] = Num 5
   \<and> spec_maxAffordableQty (hd (customers (state negZeroPriceApp)))
        (hd (orders (state negZeroPriceApp))) = NegInf
   \<and> allocatedQty (hd (orders (state (runAutoAssignment negZeroPriceApp)))) = Num 0
   \<and> remainingStock (state (runAutoAssignment negZeroPriceApp)) = Num 10"
  by (simp add: zeroPriceApp_def negZeroPriceApp_def runAutoAssignment_def js_eval js_div_def
        js_mul_def js_sub_def js_add_def)

end
